theory Spec2Isabelle
  imports Main "HOL-Library.Word"
begin

section \<open>peer-node: Host, Peer and the frame protocol of src/index.js\<close>

text \<open>
  The development embeds the classes \<open>Host\<close> and \<open>Peer\<close> of \<open>src/index.js\<close>.
  A JavaScript object is a record, a method is a function that takes the object and
  returns the updated object, and a thrown exception is the left injection of a sum.
  What the module gets from \<open>crypto\<close>, \<open>net\<close> and the socket is a field of the record
  \<open>platform\<close>, a parameter of every function that uses it; \<open>Buffer\<close> and
  \<open>EventEmitter\<close> behave in one way only and are defined here.
\<close>

subsection \<open>Bytes, strings and Buffer operations\<close>

type_synonym byte = "8 word"
type_synonym buffer = "byte list"

text \<open>A JavaScript string is a sequence of UTF-16 code units.\<close>

type_synonym jsstring = "16 word list"

definition js :: "string \<Rightarrow> jsstring" where
  "js s = map (\<lambda>c. of_nat (of_char c)) s"

datatype exn = RangeError | TypeError | CryptoError | UnknownAddressFamily | UnhandledError

definition Buffer_alloc :: "nat \<Rightarrow> buffer" where
  "Buffer_alloc n = replicate n 0"

text \<open>
  \<open>source.copy(target, targetStart, sourceStart, sourceEnd)\<close>: the bytes
  \<open>sourceStart..sourceEnd\<close> of the source overwrite the target from \<open>targetStart\<close>,
  as many as fit; the target keeps its length.
\<close>

definition Buffer_copy :: "buffer \<Rightarrow> buffer \<Rightarrow> nat \<Rightarrow> nat \<Rightarrow> nat \<Rightarrow> buffer" where
  "Buffer_copy source target targetStart sourceStart sourceEnd =
     (let bytes = take (length target - targetStart) (drop sourceStart (take sourceEnd source))
      in take targetStart target @ bytes @ drop (targetStart + length bytes) target)"

definition Buffer_slice :: "buffer \<Rightarrow> nat \<Rightarrow> nat \<Rightarrow> buffer" where
  "Buffer_slice b start fin = drop start (take fin b)"

text \<open>The integer readers and writers throw a RangeError outside the buffer or the range.\<close>

definition readUInt32LE :: "buffer \<Rightarrow> nat \<Rightarrow> nat option" where
  "readUInt32LE b off =
     (if off + 4 \<le> length b
      then Some (unat (b ! off) + 256 * unat (b ! (off + 1)) + 65536 * unat (b ! (off + 2))
                 + 16777216 * unat (b ! (off + 3)))
      else None)"

definition readUInt32BE :: "buffer \<Rightarrow> nat \<Rightarrow> nat option" where
  "readUInt32BE b off =
     (if off + 4 \<le> length b
      then Some (16777216 * unat (b ! off) + 65536 * unat (b ! (off + 1)) + 256 * unat (b ! (off + 2))
                 + unat (b ! (off + 3)))
      else None)"

definition writeUInt32LE :: "nat \<Rightarrow> nat \<Rightarrow> buffer \<Rightarrow> buffer option" where
  "writeUInt32LE v off b =
     (if v < 4294967296 \<and> off + 4 \<le> length b
      then Some (b[off := of_nat v, off + 1 := of_nat (v div 256), off + 2 := of_nat (v div 65536),
                   off + 3 := of_nat (v div 16777216)])
      else None)"

definition writeUInt8 :: "nat \<Rightarrow> nat \<Rightarrow> buffer \<Rightarrow> buffer option" where
  "writeUInt8 v off b = (if v < 256 \<and> off < length b then Some (b[off := of_nat v]) else None)"

text \<open>\<open>Buffer.from\<close> of an ASCII string, one byte for each character.\<close>

definition Buffer_from :: "string \<Rightarrow> buffer" where
  "Buffer_from s = map (\<lambda>c. of_nat (of_char c)) s"

text \<open>
  \<open>buf.toString()\<close> decodes the bytes as UTF-8. A byte below 128 is the character with
  that code; a well-formed sequence of 2, 3 or 4 bytes is one code point, written as a
  surrogate pair when it is above \<open>U+FFFF\<close>; every maximal ill-formed part becomes the
  replacement character \<open>U+FFFD\<close>, so that the decoding does not determine the bytes.
\<close>

definition utf16 :: "nat \<Rightarrow> jsstring" where
  "utf16 cp = (if cp < 65536 then [of_nat cp]
               else [of_nat (55296 + (cp - 65536) div 1024), of_nat (56320 + (cp - 65536) mod 1024)])"

definition continuation :: "byte \<Rightarrow> bool" where
  "continuation b \<longleftrightarrow> 128 \<le> b \<and> b \<le> 191"

fun Buffer_toString :: "buffer \<Rightarrow> jsstring" where
  "Buffer_toString [] = []"
| "Buffer_toString (b # bs) =
     (if b < 128 then ucast b # Buffer_toString bs
      else if 194 \<le> b \<and> b \<le> 223 then
        (case bs of
           [] \<Rightarrow> [0xFFFD]
         | c # cs \<Rightarrow>
             if continuation c
             then utf16 (64 * (unat b - 192) + (unat c - 128)) @ Buffer_toString cs
             else 0xFFFD # Buffer_toString bs)
      else if 224 \<le> b \<and> b \<le> 239 then
        (case bs of
           [] \<Rightarrow> [0xFFFD]
         | c # cs \<Rightarrow>
             if (if b = 224 then 160 else 128) \<le> c \<and> c \<le> (if b = 237 then 159 else 191) then
               (case cs of
                  [] \<Rightarrow> [0xFFFD]
                | d # ds \<Rightarrow>
                    if continuation d
                    then utf16 (4096 * (unat b - 224) + 64 * (unat c - 128) + (unat d - 128))
                           @ Buffer_toString ds
                    else 0xFFFD # Buffer_toString cs)
             else 0xFFFD # Buffer_toString bs)
      else if 240 \<le> b \<and> b \<le> 244 then
        (case bs of
           [] \<Rightarrow> [0xFFFD]
         | c # cs \<Rightarrow>
             if (if b = 240 then 144 else 128) \<le> c \<and> c \<le> (if b = 244 then 143 else 191) then
               (case cs of
                  [] \<Rightarrow> [0xFFFD]
                | d # ds \<Rightarrow>
                    if continuation d then
                      (case ds of
                         [] \<Rightarrow> [0xFFFD]
                       | e # es \<Rightarrow>
                           if continuation e
                           then utf16 (262144 * (unat b - 240) + 4096 * (unat c - 128)
                                         + 64 * (unat d - 128) + (unat e - 128))
                                  @ Buffer_toString es
                           else 0xFFFD # Buffer_toString ds)
                    else 0xFFFD # Buffer_toString cs)
             else 0xFFFD # Buffer_toString bs)
      else 0xFFFD # Buffer_toString bs)"

declare Buffer_toString.simps(2) [simp del]

subsection \<open>The runtime\<close>

datatype sock = Created nat string | Given nat

record keypair_t =
  "public" :: buffer
  "private" :: buffer

text \<open>
  \<open>hmac\<close> is \<open>crypto.createHmac('sha256', key).update(data).digest()\<close>, a 256-bit value;
  \<open>privateEncrypt\<close> and \<open>publicDecrypt\<close> are the functions of \<open>crypto\<close>, None when they throw;
  \<open>isIP\<close> is \<open>net.isIP\<close> (0, 4 or 6);
  \<open>socketWrite\<close> tells whether the promise of \<open>PromiseSocket.write\<close> resolves.
\<close>

record platform =
  hmac :: "jsstring \<Rightarrow> buffer \<Rightarrow> 256 word"
  privateEncrypt :: "buffer \<Rightarrow> buffer \<Rightarrow> buffer option"
  publicDecrypt :: "jsstring \<Rightarrow> buffer \<Rightarrow> buffer option"
  isIP :: "string \<Rightarrow> nat"
  socketWrite :: "sock \<Rightarrow> buffer \<Rightarrow> bool"

subsection \<open>Host\<close>

record host =
  family :: string
  address :: string
  port :: nat

text \<open>\<open>String.prototype.includes\<close>: the argument occurs somewhere in the string.\<close>

fun str_includes :: "string \<Rightarrow> string \<Rightarrow> bool" where
  "str_includes [] t = (t = [])"
| "str_includes (c # s) t = (take (length t) (c # s) = t \<or> str_includes s t)"

definition digit :: "nat \<Rightarrow> char" where
  "digit d = ''0123456789abcdef'' ! d"

text \<open>
  The constructor of Host, lines 27 to 44. The argument of \<open>includes\<close> is the array
  \<open>['localhost']\<close>, which \<open>includes\<close> converts to the string \<open>localhost\<close>.
\<close>

definition Host_new :: "platform \<Rightarrow> string \<Rightarrow> nat \<Rightarrow> exn + host" where
  "Host_new E addr prt =
     (let addr = (if str_includes addr ''localhost'' then ''127.0.0.1'' else addr);
          version = isIP E addr
      in if version = 0 then Inl UnknownAddressFamily
         else Inr \<lparr>family = ''IPv'' @ [digit version], address = addr, port = prt\<rparr>)"

subsection \<open>Peer\<close>

datatype conn_state = Connecting | Connected | Disconnecting | Destroying | Closed

datatype event = ConnectEv | MessageEv jsstring buffer | EndEv | ErrorEv string | CloseEv

text \<open>
  The fields of a Peer. \<open>state\<close> is None for \<open>null\<close>. The constructor assigns
  \<open>_maxConnectionAttempts\<close>; \<open>_socketEventError\<close> reads \<open>_maxConnectionAttemps\<close>, a property
  that no line of the module assigns, so that it is \<open>undefined\<close>, here None.
  \<open>inBuffer\<close> and \<open>inCursor\<close> are assigned by \<open>connect\<close>, which also attaches the data
  handler. Of \<open>_eventEmitter\<close> the record keeps \<open>listeners\<close>, the names of the events for
  which \<open>on\<close> has attached a callback, and \<open>events\<close>, the notifications emitted so far,
  oldest first. The callbacks themselves belong to the application and are taken to return.
\<close>

record peer =
  host :: host
  state :: "conn_state option"
  header :: nat
  bufferSize :: nat
  socket :: "sock option"
  hash :: "string option"
  connectionAttempts :: nat
  keypair :: "keypair_t option"
  remotePublicKey :: "jsstring option"
  maxConnectionAttempts :: nat
  maxConnectionAttemps :: "nat option"
  inBuffer :: buffer
  inCursor :: nat
  listeners :: "string list"
  events :: "event list"

definition Peer_new :: "host \<Rightarrow> nat \<Rightarrow> nat \<Rightarrow> nat \<Rightarrow> peer" where
  "Peer_new h hdr bsize maxConnectionAttemps_arg =
     \<lparr>host = h, state = None, header = hdr, bufferSize = bsize, socket = None, hash = None,
      connectionAttempts = 0, keypair = None, remotePublicKey = None,
      maxConnectionAttempts = maxConnectionAttemps_arg, maxConnectionAttemps = None,
      inBuffer = [], inCursor = 0, listeners = [], events = []\<rparr>"

text \<open>\<open>on\<close>, lines 345 to 347.\<close>

definition on :: "string \<Rightarrow> peer \<Rightarrow> peer" where
  "on name p = p\<lparr>listeners := listeners p @ [name]\<rparr>"

fun event_name :: "event \<Rightarrow> string" where
  "event_name ConnectEv = ''connect''"
| "event_name (MessageEv command data) = ''message''"
| "event_name EndEv = ''end''"
| "event_name (ErrorEv err) = ''error''"
| "event_name CloseEv = ''close''"

text \<open>
  \<open>_eventEmitter.emit\<close>. An \<open>EventEmitter\<close> throws when it is to emit \<open>error\<close> and no
  listener is attached for it; the argument here is not an \<open>Error\<close>, so that what is thrown
  is the unhandled-error exception of \<open>events\<close>. Every other notification is raised
  whether or not anyone listens.
\<close>

definition emit :: "event \<Rightarrow> peer \<Rightarrow> exn + peer" where
  "emit ev p =
     (if event_name ev = ''error'' \<and> ''error'' \<notin> set (listeners p) then Inl UnhandledError
      else Inr (p\<lparr>events := events p @ [ev]\<rparr>))"

text \<open>\<open>digest('hex')\<close>: 64 lower-case hexadecimal digits, the most significant first.\<close>

definition digest_hex :: "256 word \<Rightarrow> string" where
  "digest_hex w = map (\<lambda>i. digit (unat w div 16 ^ (63 - i) mod 16)) [0..<64]"

definition calculateChecksum :: "platform \<Rightarrow> jsstring \<Rightarrow> buffer \<Rightarrow> string" where
  "calculateChecksum E command data = digest_hex (hmac E command data)"

text \<open>
  The command of a message, lines 295 to 302: the bytes 4 to 15 that are not 0, each as a
  character. A byte beyond the end of the message is \<open>undefined\<close> and is skipped as well.
\<close>

definition message_command :: "buffer \<Rightarrow> jsstring" where
  "message_command message = map ucast (filter (\<lambda>s. s > 0) (Buffer_slice message 4 16))"

text \<open>
  The payload of a message, lines 307 to 319: None stands for \<open>null\<close>, the payload of a
  message whose checksum does not verify.
\<close>

definition message_payload :: "platform \<Rightarrow> buffer \<Rightarrow> nat \<Rightarrow> nat \<Rightarrow> exn + buffer option" where
  "message_payload E message messageLength checksum =
     (if messageLength > 0 then
        (let payload = Buffer_copy message (Buffer_alloc messageLength) 0 24 (length message)
         in case readUInt32BE (Buffer_from (calculateChecksum E (message_command message) payload)) 0 of
              None \<Rightarrow> Inl RangeError
            | Some v \<Rightarrow> if checksum \<noteq> v then Inr None else Inr (Some payload))
      else Inr (Some (Buffer_alloc 0)))"

text \<open>Lines 321 to 337: what becomes of a message whose payload is not \<open>null\<close>.\<close>

definition deliver :: "platform \<Rightarrow> jsstring \<Rightarrow> buffer \<Rightarrow> peer \<Rightarrow> exn + peer" where
  "deliver E command payload p =
     (if command = js ''SECURE''
      then Inr (p\<lparr>remotePublicKey := Some (Buffer_toString payload)\<rparr>)
      else (case remotePublicKey p of
              None \<Rightarrow> emit (MessageEv command payload) p
            | Some key \<Rightarrow>
                (case publicDecrypt E key payload of
                   None \<Rightarrow> Inl CryptoError
                 | Some decrypted \<Rightarrow> emit (MessageEv command decrypted) p)))"

definition processMessage :: "platform \<Rightarrow> buffer \<Rightarrow> peer \<Rightarrow> exn + peer" where
  "processMessage E message p =
     (case readUInt32LE message 16 of
        None \<Rightarrow> Inl RangeError
      | Some messageLength \<Rightarrow>
          (case readUInt32BE message 20 of
             None \<Rightarrow> Inl RangeError
           | Some checksum \<Rightarrow>
               (case message_payload E message messageLength checksum of
                  Inl e \<Rightarrow> Inl e
                | Inr None \<Rightarrow> Inr p
                | Inr (Some payload) \<Rightarrow> deliver E (message_command message) payload p)))"

text \<open>
  The loop of \<open>_socketEventData\<close>, lines 142 to 163, from the values of \<open>cursor\<close> and
  \<open>messageEnd\<close> at the loop head; it returns the Peer and \<open>messageEnd\<close> at the exit.
  \<open>messageStart\<close> is \<open>cursor\<close>. An exception leaves the loop and the handler; it is
  recorded with the Peer as it is at that moment, since the notifications raised before it
  have been raised.
\<close>

function scan :: "platform \<Rightarrow> nat \<Rightarrow> nat \<Rightarrow> peer \<Rightarrow> exn \<times> peer + peer \<times> nat" where
  "scan E cursor messageEnd p =
     (if cursor < inCursor p then
        (case readUInt32LE (inBuffer p) cursor of
           None \<Rightarrow> Inl (RangeError, p)
         | Some h \<Rightarrow>
             if h = header p then
               if inCursor p > cursor + 16 then
                 (case readUInt32LE (inBuffer p) (cursor + 16) of
                    None \<Rightarrow> Inl (RangeError, p)
                  | Some messageLength \<Rightarrow>
                      if inCursor p \<ge> cursor + messageLength + 24 then
                        (case processMessage E
                                (Buffer_slice (inBuffer p) cursor (cursor + messageLength + 24)) p of
                           Inl e \<Rightarrow> Inl (e, p)
                         | Inr p' \<Rightarrow>
                             scan E (cursor + messageLength + 24) (cursor + messageLength + 24) p')
                      else scan E (cursor + messageLength + 24) messageEnd p)
               else scan E (inCursor p) messageEnd p
             else scan E (cursor + 1) messageEnd p)
      else Inr (p, messageEnd))"
  by pat_completeness auto
termination
  by (relation "measure (\<lambda>(E, cursor, messageEnd, p). inCursor p - cursor)")
     (auto simp: processMessage_def deliver_def emit_def split: option.splits sum.splits if_splits)

declare scan.simps [simp del]

definition socketEventData :: "platform \<Rightarrow> buffer \<Rightarrow> peer \<Rightarrow> exn \<times> peer + peer" where
  "socketEventData E data p =
     (if length data + inCursor p > length (inBuffer p) then
        (case emit (ErrorEv ''Peer exceeded max receiving buffer'') p of
           Inl e \<Rightarrow> Inl (e, p)
         | Inr p' \<Rightarrow> Inr (p'\<lparr>inCursor := length (inBuffer p) + 1\<rparr>))
      else
        (let p1 = p\<lparr>inBuffer := Buffer_copy data (inBuffer p) (inCursor p) 0 (length data),
                     inCursor := inCursor p + length data\<rparr>
         in if inCursor p1 < 20 then Inr p1
            else (case scan E 0 0 p1 of
                    Inl thrown \<Rightarrow> Inl thrown
                  | Inr (p2, messageEnd) \<Rightarrow>
                      if messageEnd > 0
                      then Inr (p2\<lparr>inBuffer := Buffer_copy (inBuffer p2) (inBuffer p2) 0 messageEnd (inCursor p2),
                                   inCursor := inCursor p2 - messageEnd\<rparr>)
                      else Inr p2)))"

text \<open>
  Data events are delivered one after the other. No line of the module catches an
  exception that leaves the handler: it is an uncaught exception of the process, and the
  run ends with it.
\<close>

fun dataEvents :: "platform \<Rightarrow> buffer list \<Rightarrow> peer \<Rightarrow> exn \<times> peer + peer" where
  "dataEvents E [] p = Inr p"
| "dataEvents E (d # ds) p =
     (case socketEventData E d p of
        Inl thrown \<Rightarrow> Inl thrown
      | Inr p' \<Rightarrow> dataEvents E ds p')"

text \<open>The Peer at the end of a run, however the run ended.\<close>

definition after :: "exn \<times> peer + peer \<Rightarrow> peer" where
  "after r = (case r of Inl (e, p) \<Rightarrow> p | Inr p \<Rightarrow> p)"

definition scanned :: "exn \<times> peer + peer \<times> nat \<Rightarrow> peer" where
  "scanned r = (case r of Inl (e, p) \<Rightarrow> p | Inr (p, messageEnd) \<Rightarrow> p)"

subsection \<open>send, connect and the error handler\<close>

text \<open>
  \<open>send\<close>, lines 356 to 365: the data to frame. The argument is a Buffer or \<open>null\<close>;
  it is encrypted unless the command is SECURE, when the Peer has a key pair and the remote
  public key.
\<close>

definition send_data :: "platform \<Rightarrow> jsstring \<Rightarrow> buffer option \<Rightarrow> peer \<Rightarrow> exn + buffer" where
  "send_data E command data p =
     (let data = (case data of None \<Rightarrow> Buffer_alloc 0 | Some d \<Rightarrow> d)
      in case keypair p of
           None \<Rightarrow> Inr data
         | Some kp \<Rightarrow>
             if command \<noteq> js ''SECURE'' \<and> remotePublicKey p \<noteq> None
             then (case privateEncrypt E (private kp) data of
                     None \<Rightarrow> Inl CryptoError
                   | Some encrypted \<Rightarrow> Inr encrypted)
             else Inr data)"

text \<open>The loop of lines 374 to 379, over the values of \<open>i\<close> still to come.\<close>

fun writeCommand :: "jsstring \<Rightarrow> nat list \<Rightarrow> buffer \<Rightarrow> buffer option" where
  "writeCommand command [] b = Some b"
| "writeCommand command (i # rest) b =
     (if i < length command
      then (case writeUInt8 (unat (command ! i)) (i + 4) b of
              None \<Rightarrow> None
            | Some b' \<Rightarrow> writeCommand command rest b')
      else writeCommand command rest b)"

text \<open>\<open>send\<close>, lines 367 to 389: the frame, from the data to frame.\<close>

definition send_outgoingBuffer :: "platform \<Rightarrow> jsstring \<Rightarrow> buffer \<Rightarrow> peer \<Rightarrow> exn + buffer" where
  "send_outgoingBuffer E command data p =
     (case writeUInt32LE (header p) 0 (Buffer_alloc (length data + 24)) of
        None \<Rightarrow> Inl RangeError
      | Some b1 \<Rightarrow>
          (case writeCommand command [0..<12] b1 of
             None \<Rightarrow> Inl RangeError
           | Some b2 \<Rightarrow>
               (case writeUInt32LE (length data) 16 b2 of
                  None \<Rightarrow> Inl RangeError
                | Some b3 \<Rightarrow>
                    (let checksum = Buffer_from (calculateChecksum E command data)
                     in Inr (Buffer_copy data (Buffer_copy checksum b3 20 0 (length checksum))
                               24 0 (length data))))))"

text \<open>
  \<open>send\<close>: an exception before the \<open>try\<close> block leaves the function, one inside it
  (no socket, or a write that fails) is caught and makes the result \<open>false\<close>.
\<close>

definition send :: "platform \<Rightarrow> jsstring \<Rightarrow> buffer option \<Rightarrow> peer \<Rightarrow> exn + bool" where
  "send E command data p =
     (case send_data E command data p of
        Inl e \<Rightarrow> Inl e
      | Inr d \<Rightarrow>
          (case send_outgoingBuffer E command d p of
             Inl e \<Rightarrow> Inl e
           | Inr outgoingBuffer \<Rightarrow>
               (case socket p of
                  None \<Rightarrow> Inr False
                | Some s \<Rightarrow> Inr (socketWrite E s outgoingBuffer))))"

text \<open>
  \<open>connect\<close>, lines 201 to 225: the Peer after the call, and what the call returns, the
  socket or the exception of \<open>send\<close>.
\<close>

definition connect :: "platform \<Rightarrow> sock option \<Rightarrow> peer \<Rightarrow> peer \<times> (exn + sock option)" where
  "connect E sck p =
     (let p1 = p\<lparr>inBuffer := Buffer_alloc (bufferSize p), inCursor := 0\<rparr>
      in if socket p1 = None then
           (let p2 = (case sck of
                        None \<Rightarrow> p1\<lparr>state := Some Connecting,
                                    socket := Some (Created (port (host p1)) (address (host p1)))\<rparr>
                      | Some s \<Rightarrow> p1\<lparr>state := Some Connected, socket := Some s\<rparr>)
            in case keypair p2 of
                 None \<Rightarrow> (p2, Inr (socket p2))
               | Some kp \<Rightarrow>
                   (case send E (js ''SECURE'') (Some (public kp)) p2 of
                      Inl e \<Rightarrow> (p2, Inl e)
                    | Inr sent \<Rightarrow> (p2, Inr (socket p2))))
         else (p1, Inr (socket p1)))"

text \<open>\<open>a >= b\<close> where \<open>b\<close> may be \<open>undefined\<close>: the comparison is then false.\<close>

definition js_ge :: "nat \<Rightarrow> nat option \<Rightarrow> bool" where
  "js_ge a b = (case b of None \<Rightarrow> False | Some m \<Rightarrow> a \<ge> m)"

text \<open>
  \<open>_socketEventError\<close>, lines 176 to 189. The promise of \<open>connect\<close> is not awaited, so
  that only its effect on the Peer remains.
\<close>

definition socketEventError :: "platform \<Rightarrow> string \<Rightarrow> peer \<Rightarrow> exn \<times> peer + peer" where
  "socketEventError E err p =
     (let p1 = (if state p = Some Connecting
                then fst (connect E None (p\<lparr>connectionAttempts := connectionAttempts p + 1,
                                              socket := None\<rparr>))
                else p)
      in if state p1 \<noteq> Some Connecting \<or> js_ge (connectionAttempts p1) (maxConnectionAttemps p1)
         then (case emit (ErrorEv err) p1 of Inl e \<Rightarrow> Inl (e, p1) | Inr p2 \<Rightarrow> Inr p2)
         else Inr p1)"

text \<open>Transport errors, one after the other, as long as the handler returns.\<close>

fun errorEvents :: "platform \<Rightarrow> string list \<Rightarrow> peer \<Rightarrow> exn \<times> peer + peer" where
  "errorEvents E [] p = Inr p"
| "errorEvents E (err # errs) p =
     (case socketEventError E err p of
        Inl thrown \<Rightarrow> Inl thrown
      | Inr p' \<Rightarrow> errorEvents E errs p')"

subsection \<open>A concrete runtime\<close>

text \<open>
  A runtime to run the definitions on. \<open>sha256_hmac\<close> is HMAC-SHA256 for the keys and data
  that occur below, and the HMAC-SHA256 of the empty key and the empty data for all others.
  The key operations throw, as those of \<open>crypto\<close> do for a key that is not a PEM key;
  \<open>isIP\<close> knows the loopback address only, and a write succeeds on every socket but
  \<open>Given 0\<close>.
\<close>

definition sha256_hmac :: "jsstring \<Rightarrow> buffer \<Rightarrow> 256 word" where
  "sha256_hmac k d =
     (if k = js ''HI'' \<and> d = [1, 2, 3]
      then 0xdb81c8690a03b7726c28eb90d7e858e5ffffc144b8a612f481dc246b4c762e37
      else if k = js ''HI'' \<and> d = []
      then 0xc821f6e47a9db3ed22f9334fc957030dafbfbce27abf97afb0e5b643bc553293
      else if k = js ''SECURE'' \<and> d = [1, 2, 3]
      then 0xeb4d3fdbc91030aae6f90714d2d4a872f2fe11cb53f8cdda6d228ac9bb546faf
      else if k = js ''SECURE'' \<and> d = [255]
      then 0x0bf837ae54deea363b5baf5bfefc5e568c1cff0f48ecbe260a32026e7cb1e06f
      else if k = js ''SECURE'' \<and> d = [254]
      then 0xdff277ad0f5a947ca5d1c767472d3ebad820a132cd8e5544d5dc27020dbea47b
      else if k = js ''ABCDEFGHIJKLMNOP'' \<and> d = [1, 2, 3]
      then 0xcb7637a3cb023633452a152ef1042005ac7261e41e65a57a0e28c7fe64a61ea8
      else if k = js ''ABCDEFGHIJKL'' \<and> d = [1, 2, 3]
      then 0x688daf6afd5ab3a17f3bb82caa87535dceebe9c3966a12dc799b9a9cdb01baa0
      else 0xb613679a0814d9ec772f95d778c35fc5ff1697c493715653c6c712144292c5ad)"

definition demo :: platform where
  "demo =
     \<lparr>hmac = sha256_hmac,
      privateEncrypt = (\<lambda>k d. None),
      publicDecrypt = (\<lambda>k d. None),
      isIP = (\<lambda>a. if a = ''127.0.0.1'' then 4 else 0),
      socketWrite = (\<lambda>s b. s \<noteq> Given 0)\<rparr>"

definition demo_host :: host where
  "demo_host = \<lparr>family = ''IPv4'', address = ''127.0.0.1'', port = 3000\<rparr>"

text \<open>A Peer with a buffer of 64 bytes and no key pair, attached to a connected socket.\<close>

definition demo_peer :: peer where
  "demo_peer = fst (connect demo (Some (Given 1)) (Peer_new demo_host 0xA27CC1A2 64 10))"

subsection \<open>The wire format\<close>

text \<open>
  The frame as section 6 of the specification lays it out: the magic number, the command
  padded with zero bytes to 12 bytes, the length of the payload, the integrity tag and
  the payload. The frames that \<open>send\<close> builds are compared with it below.
\<close>

definition uint32LE :: "nat \<Rightarrow> buffer" where
  "uint32LE v = [of_nat v, of_nat (v div 256), of_nat (v div 65536), of_nat (v div 16777216)]"

definition wire_frame :: "nat \<Rightarrow> jsstring \<Rightarrow> buffer \<Rightarrow> buffer \<Rightarrow> buffer" where
  "wire_frame magic command tag payload =
     uint32LE magic @ map ucast (take 12 command) @ replicate (12 - length command) 0
       @ uint32LE (length payload) @ tag @ payload"

text \<open>The integrity tag: the first 4 bytes of the hexadecimal text of the HMAC.\<close>

definition integrityTag :: "platform \<Rightarrow> jsstring \<Rightarrow> buffer \<Rightarrow> buffer" where
  "integrityTag E command payload = take 4 (Buffer_from (calculateChecksum E command payload))"

subsection \<open>Auxiliary definitions\<close>

text \<open>
  \<open>ingested m p r\<close> is the outcome of a data event that brings the frame \<open>m\<close> to a Peer
  \<open>p\<close> with an empty accumulation buffer, when \<open>r\<close> is what processing the frame does to
  \<open>p\<close>: the frame is in the buffer, and is consumed unless processing it throws.
  \<open>putChar\<close> is one round of the loop of lines 374 to 379 when \<open>writeUInt8\<close> does not throw.
\<close>

definition ingested :: "buffer \<Rightarrow> peer \<Rightarrow> exn + peer \<Rightarrow> exn \<times> peer + peer" where
  "ingested m p r =
     (case r of
        Inl e \<Rightarrow> Inl (e, p\<lparr>inBuffer := m @ drop (length m) (inBuffer p), inCursor := length m\<rparr>)
      | Inr q \<Rightarrow> Inr (q\<lparr>inBuffer := m @ drop (length m) (inBuffer p), inCursor := 0\<rparr>))"

definition putChar :: "jsstring \<Rightarrow> nat \<Rightarrow> buffer \<Rightarrow> buffer" where
  "putChar command i b = (if i < length command then b[i + 4 := ucast (command ! i)] else b)"

text \<open>
  Frames for the magic number \<open>0xA27CC1A2\<close>. \<open>hi_frame\<close>: the command HI, the payload
  1, 2, 3 and the tag \<open>db81\<close> of its HMAC; \<open>bad_tag_frame\<close>: the same with the tag
  \<open>b614\<close>; \<open>empty_frame\<close>: the command HI, no payload and the tag bytes 1, 2, 3, 4;
  \<open>secure_frame\<close>, \<open>secure_ff_frame\<close> and \<open>secure_fe_frame\<close>: the command SECURE with
  the payloads 1, 2, 3, then the byte 255, then the byte 254, each with the tag of its HMAC;
  \<open>long_frame\<close>: what \<open>send\<close> makes of the 16 characters \<open>ABCDEFGHIJKLMNOP\<close> and the
  payload 1, 2, 3. \<open>noise\<close> is 38 zero bytes.
\<close>

definition hi_frame :: buffer where
  "hi_frame = [162, 193, 124, 162, 72, 73, 0, 0, 0, 0, 0, 0, 0, 0, 0, 0, 3, 0, 0, 0, 100, 98, 56, 49, 1, 2, 3]"

definition bad_tag_frame :: buffer where
  "bad_tag_frame = [162, 193, 124, 162, 72, 73, 0, 0, 0, 0, 0, 0, 0, 0, 0, 0, 3, 0, 0, 0, 98, 54, 49, 52, 1, 2, 3]"

definition empty_frame :: buffer where
  "empty_frame = [162, 193, 124, 162, 72, 73, 0, 0, 0, 0, 0, 0, 0, 0, 0, 0, 0, 0, 0, 0, 1, 2, 3, 4]"

definition secure_frame :: buffer where
  "secure_frame = [162, 193, 124, 162, 83, 69, 67, 85, 82, 69, 0, 0, 0, 0, 0, 0, 3, 0, 0, 0, 101, 98, 52, 100, 1, 2, 3]"

definition secure_ff_frame :: buffer where
  "secure_ff_frame = [162, 193, 124, 162, 83, 69, 67, 85, 82, 69, 0, 0, 0, 0, 0, 0, 1, 0, 0, 0, 48, 98, 102, 56, 255]"

definition secure_fe_frame :: buffer where
  "secure_fe_frame = [162, 193, 124, 162, 83, 69, 67, 85, 82, 69, 0, 0, 0, 0, 0, 0, 1, 0, 0, 0, 100, 102, 102, 50, 254]"

definition long_frame :: buffer where
  "long_frame = [162, 193, 124, 162, 65, 66, 67, 68, 69, 70, 71, 72, 73, 74, 75, 76, 3, 0, 0, 0, 99, 98, 55, 54, 1, 2, 3]"


text \<open>
  \<open>holding bytes\<close> is the concrete Peer in the middle of a data event, after the bytes have
  been copied into its accumulation buffer and before the loop starts.
\<close>

definition holding :: "buffer \<Rightarrow> peer" where
  "holding bytes = demo_peer\<lparr>inBuffer := bytes @ replicate (64 - length bytes) 0, inCursor := length bytes\<rparr>"

subsection \<open>Definitions for the comparison of chunked and whole ingestion\<close>

text \<open>
  \<open>rebuffer\<close> gives a Peer another accumulation buffer and cursor. \<open>agrees p bw e\<close>: the
  bytes that \<open>p\<close> holds are the bytes of \<open>bw\<close> from the offset \<open>e\<close>. \<open>whole S p0 x\<close> is the
  Peer \<open>x\<close> with the buffer of \<open>p0\<close> after the whole stream \<open>S\<close> was copied into it.
  \<open>tracks E S p0 p e\<close> relates a Peer \<open>p\<close> that has taken a prefix of \<open>S\<close> in chunks and has
  consumed \<open>e\<close> bytes of it to the scan of the whole stream: that scan is the scan resumed
  at \<open>e\<close> from what \<open>p\<close> has done so far, and once \<open>p\<close> holds all of \<open>S\<close> the resumed scan
  does nothing more. \<open>chunk_a\<close> and \<open>chunk_b\<close> are two frames cut after 30 bytes.
\<close>

definition rebuffer :: "buffer \<Rightarrow> nat \<Rightarrow> peer \<Rightarrow> peer" where
  "rebuffer b n p = p\<lparr>inBuffer := b, inCursor := n\<rparr>"


definition whole :: "buffer \<Rightarrow> peer \<Rightarrow> peer \<Rightarrow> peer" where
  "whole S p0 x = rebuffer (S @ drop (length S) (inBuffer p0)) (length S) x"




section \<open>Lemmas\<close>

subsection \<open>Buffer operations\<close>

lemma Buffer_copy_length [simp]: "length (Buffer_copy s t ts ss se) = length t"
  by (auto simp: Buffer_copy_def Let_def min_def)

lemma Buffer_copy_front:
  "length m \<le> length b \<Longrightarrow> Buffer_copy m b 0 0 (length m) = m @ drop (length m) b"
  by (simp add: Buffer_copy_def Let_def)

lemma Buffer_copy_nothing:
  "n \<le> length b \<Longrightarrow> Buffer_copy b b 0 n n = b"
  by (simp add: Buffer_copy_def Let_def)

lemma Buffer_copy_payload:
  "length m = L + 24 \<Longrightarrow> Buffer_copy m (Buffer_alloc L) 0 24 (length m) = drop 24 m"
  by (simp add: Buffer_copy_def Buffer_alloc_def Let_def)

lemma readUInt32LE_append:
  "off + 4 \<le> length m \<Longrightarrow> readUInt32LE (m @ r) off = readUInt32LE m off"
  by (simp add: readUInt32LE_def nth_append)

lemma Buffer_slice_front: "Buffer_slice (m @ r) 0 (length m) = m"
  by (simp add: Buffer_slice_def)

lemma length_digest_hex [simp]: "length (digest_hex w) = 64"
  by (simp add: digest_hex_def)

lemma length_checksum [simp]: "length (Buffer_from (calculateChecksum E command data)) = 64"
  by (simp add: Buffer_from_def calculateChecksum_def)

lemma length_integrityTag [simp]: "length (integrityTag E command data) = 4"
  by (simp add: integrityTag_def)

lemma length_uint32LE [simp]: "length (uint32LE v) = 4"
  by (simp add: uint32LE_def)

lemma writeUInt32LE_length: "writeUInt32LE v off b = Some b' \<Longrightarrow> length b' = length b"
  by (auto simp: writeUInt32LE_def split: if_splits)

lemma writeCommand_length: "writeCommand command is b = Some b' \<Longrightarrow> length b' = length b"
  by (induction "is" arbitrary: b) (auto simp: writeUInt8_def split: if_splits option.splits)

lemma uint32_split:
  assumes "v < 4294967296"
  shows "v mod 256 + 256 * (v div 256 mod 256) + 65536 * (v div 65536 mod 256)
         + 16777216 * (v div 16777216 mod 256) = (v::nat)"
proof -
  define x1 where "x1 = v div 256"
  define x2 where "x2 = x1 div 256"
  define x3 where "x3 = x2 div 256"
  define r0 where "r0 = v mod 256"
  define r1 where "r1 = x1 mod 256"
  define r2 where "r2 = x2 mod 256"
  have d2: "v div 65536 = x2"
    unfolding x2_def x1_def by (simp add: div_mult2_eq [symmetric])
  have d3: "v div 16777216 = x3"
    unfolding x3_def x2_def x1_def by (simp add: div_mult2_eq [symmetric])
  have "v < 256 * 16777216" using assms by simp
  then have "v div 16777216 < 256" by (rule less_mult_imp_div_less)
  then have m3: "x3 mod 256 = x3" using d3 by simp
  have e0: "v = 256 * x1 + r0" unfolding x1_def r0_def by simp
  have e1: "x1 = 256 * x2 + r1" unfolding x2_def r1_def by simp
  have e2: "x2 = 256 * x3 + r2" unfolding x3_def r2_def by simp
  have "r0 + 256 * r1 + 65536 * r2 + 16777216 * x3 = v"
    using e0 e1 e2 by linarith
  then show ?thesis
    unfolding d2 d3 m3 unfolding r0_def r1_def r2_def x1_def [symmetric] x2_def [symmetric] .
qed

lemma readUInt32LE_uint32LE:
  "v < 4294967296 \<Longrightarrow> readUInt32LE (pre @ uint32LE v @ post) (length pre) = Some v"
  using uint32_split [of v]
  by (simp add: readUInt32LE_def uint32LE_def nth_append unat_of_nat)

lemma checksum_copy:
  assumes "length ck = 64" "length b3 = n + 24"
  shows "Buffer_copy ck b3 20 0 64 = take 20 b3 @ take (n + 4) ck @ drop (20 + min 64 (n + 4)) b3"
  using assms by (simp add: Buffer_copy_def Let_def min_def ac_simps)

lemma data_copy:
  assumes "length b4 = length data + 24"
  shows "Buffer_copy data b4 24 0 (length data) = take 24 b4 @ data"
  using assms by (simp add: Buffer_copy_def Let_def)

lemma tag_data_copy:
  assumes "length ck = 64" "length b3 = length data + 24"
  shows "Buffer_copy data (Buffer_copy ck b3 20 0 64) 24 0 (length data) = take 20 b3 @ take 4 ck @ data"
proof -
  have "take 24 (take 20 b3 @ take (length data + 4) ck @ drop (20 + min 64 (length data + 4)) b3)
        = take 20 b3 @ take 4 ck"
    using assms by (simp add: min_def)
  then show ?thesis
    using assms by (simp add: checksum_copy [OF assms] data_copy)
qed

subsection \<open>One frame in an empty buffer\<close>

lemma emit_message [simp]:
  "emit (MessageEv c d) p = Inr (p\<lparr>events := events p @ [MessageEv c d]\<rparr>)"
  by (simp add: emit_def)

lemma emit_error:
  "emit (ErrorEv err) p =
     (if ''error'' \<in> set (listeners p) then Inr (p\<lparr>events := events p @ [ErrorEv err]\<rparr>)
      else Inl UnhandledError)"
  by (simp add: emit_def)

lemma processMessage_buffer:
  "processMessage E m (p\<lparr>inBuffer := b, inCursor := n\<rparr>) =
     map_sum id (\<lambda>q. q\<lparr>inBuffer := b, inCursor := n\<rparr>) (processMessage E m p)"
  by (simp add: processMessage_def deliver_def emit_def split: option.splits sum.splits)

lemma processMessage_fields:
  "processMessage E m p = Inr q \<Longrightarrow> inCursor q = inCursor p \<and> inBuffer q = inBuffer p \<and> header q = header p"
  by (auto simp: processMessage_def deliver_def emit_def split: option.splits sum.splits if_splits)

lemma scan_done: "inCursor p \<le> cursor \<Longrightarrow> scan E cursor messageEnd p = Inr (p, messageEnd)"
  by (simp add: scan.simps)

lemma single_frame:
  assumes "inCursor p = 0" "length m = L + 24" "length m \<le> length (inBuffer p)"
    "readUInt32LE m 0 = Some (header p)" "readUInt32LE m 16 = Some L"
  shows "socketEventData E m p = ingested m p (processMessage E m p)"
proof -
  define b where "b = m @ drop (length m) (inBuffer p)"
  define p1 where "p1 = p\<lparr>inBuffer := b, inCursor := length m\<rparr>"
  have lb: "length b = length (inBuffer p)" using assms(3) by (simp add: b_def)
  have r0: "readUInt32LE b 0 = Some (header p)"
    using assms by (simp add: b_def readUInt32LE_append)
  have r16: "readUInt32LE b 16 = Some L"
    using assms by (simp add: b_def readUInt32LE_append)
  have sl: "Buffer_slice b 0 (L + 24) = m"
    using Buffer_slice_front [of m "drop (length m) (inBuffer p)"] assms(2) by (simp add: b_def)
  have pm: "processMessage E m p1 = map_sum id (\<lambda>q. q\<lparr>inBuffer := b, inCursor := length m\<rparr>) (processMessage E m p)"
    by (simp add: p1_def processMessage_buffer)
  have sc: "scan E 0 0 p1 = (case processMessage E m p1 of Inl e \<Rightarrow> Inl (e, p1) | Inr p' \<Rightarrow> Inr (p', L + 24))"
  proof (cases "processMessage E m p1")
    case (Inl e)
    then show ?thesis
      using assms(2) r0 r16 sl by (subst scan.simps) (simp add: p1_def)
  next
    case (Inr p')
    then have "inCursor p' = L + 24"
      using processMessage_fields [OF Inr] assms(2) by (simp add: p1_def)
    then have "scan E (L + 24) (L + 24) p' = Inr (p', L + 24)"
      by (simp add: scan_done)
    then show ?thesis
      using Inr assms(2) r0 r16 sl by (subst scan.simps) (simp add: p1_def)
  qed
  have "socketEventData E m p =
          (case scan E 0 0 p1 of Inl thrown \<Rightarrow> Inl thrown
           | Inr (p2, messageEnd) \<Rightarrow>
               if messageEnd > 0
               then Inr (p2\<lparr>inBuffer := Buffer_copy (inBuffer p2) (inBuffer p2) 0 messageEnd (inCursor p2),
                             inCursor := inCursor p2 - messageEnd\<rparr>)
               else Inr p2)"
  proof -
    have "Buffer_copy m (inBuffer p) (inCursor p) 0 (length m) = b"
      using assms(1,3) by (simp add: Buffer_copy_front b_def)
    then show ?thesis
      unfolding socketEventData_def Let_def using assms(1,2,3) by (simp add: p1_def)
  qed
  also have "\<dots> = ingested m p (processMessage E m p)"
  proof (cases "processMessage E m p")
    case (Inl e)
    then show ?thesis unfolding sc pm by (simp add: ingested_def p1_def b_def)
  next
    case (Inr q)
    have "L + 24 \<le> length b" using assms(2,3) lb by simp
    then have "Buffer_copy b b 0 (L + 24) (L + 24) = b" by (rule Buffer_copy_nothing)
    then show ?thesis
      unfolding sc pm using Inr assms(2) by (simp add: ingested_def b_def)
  qed
  finally show ?thesis .
qed

lemma processMessage_frame:
  assumes "length m = L + 24" "readUInt32LE m 16 = Some L"
  shows "processMessage E m p =
           (if L = 0 \<or> readUInt32BE m 20 =
                 readUInt32BE (Buffer_from (calculateChecksum E (message_command m) (drop 24 m))) 0
            then deliver E (message_command m) (drop 24 m) p
            else Inr p)"
proof -
  obtain v where v: "readUInt32BE m 20 = Some v"
    using assms(1) by (simp add: readUInt32BE_def)
  obtain w where w: "readUInt32BE (Buffer_from (calculateChecksum E (message_command m) (drop 24 m))) 0 = Some w"
    by (simp add: readUInt32BE_def)
  show ?thesis
  proof (cases "L = 0")
    case True
    then show ?thesis
      using assms by (simp add: processMessage_def v message_payload_def Buffer_alloc_def)
  next
    case False
    have pl: "Buffer_copy m (Buffer_alloc L) 0 24 (length m) = drop 24 m"
      using assms(1) by (rule Buffer_copy_payload)
    show ?thesis
      unfolding processMessage_def message_payload_def Let_def
      using False assms(2) by (simp add: v w pl)
  qed
qed

lemma length_wire_frame [simp]:
  "length (wire_frame h c t d) = 20 + length t + length d"
  by (simp add: wire_frame_def min_def)

lemma wire_frame_header:
  "h < 4294967296 \<Longrightarrow> readUInt32LE (wire_frame h c t d) 0 = Some h"
  using readUInt32LE_uint32LE [of h "[]"] by (simp add: wire_frame_def)

lemma wire_frame_length:
  assumes "length d < 4294967296"
  shows "readUInt32LE (wire_frame h c t d) 16 = Some (length d)"
proof -
  define pre where "pre = uint32LE h @ map ucast (take 12 c) @ replicate (12 - length c) (0::byte)"
  have "length pre = 16" by (simp add: pre_def min_def)
  then show ?thesis
    using readUInt32LE_uint32LE [OF assms, of pre "t @ d"]
    by (simp add: wire_frame_def pre_def)
qed

lemma wire_frame_payload: "length t = 4 \<Longrightarrow> drop 24 (wire_frame h c t d) = d"
  by (simp add: wire_frame_def min_def)

lemma wire_frame_tag:
  assumes "length t = 4"
  shows "readUInt32BE (wire_frame h c t d) 20 = readUInt32BE t 0"
proof -
  define pre where "pre = uint32LE h @ map ucast (take 12 c) @ replicate (12 - length c) (0::byte) @ uint32LE (length d)"
  have l: "length pre = 20" by (simp add: pre_def min_def)
  have "wire_frame h c t d = pre @ t @ d" by (simp add: wire_frame_def pre_def)
  then show ?thesis
    using assms l by (simp add: readUInt32BE_def nth_append numeral_2_eq_2 numeral_3_eq_3)
qed

lemma integrityTag_read:
  "readUInt32BE (integrityTag E c d) 0 = readUInt32BE (Buffer_from (calculateChecksum E c d)) 0"
  by (simp add: readUInt32BE_def integrityTag_def)

subsection \<open>The frames that send builds\<close>

lemma length_putChar [simp]: "length (putChar command i b) = length b"
  by (simp add: putChar_def)

lemma length_fold_putChar [simp]: "length (fold (putChar command) is b) = length b"
  by (induction "is" arbitrary: b) simp_all

lemma of_nat_unat_ucast: "(of_nat (unat (c :: 16 word)) :: byte) = ucast c"
  by simp

lemma writeCommand_fold:
  assumes "\<forall>i\<in>set is. i < length command \<longrightarrow> unat (command ! i) < 256 \<and> i + 4 < length b"
  shows "writeCommand command is b = Some (fold (putChar command) is b)"
  using assms
proof (induction "is" arbitrary: b)
  case Nil
  then show ?case by simp
next
  case (Cons i "is")
  then show ?case
    by (simp add: writeUInt8_def putChar_def)
qed

lemma nth_fold_putChar:
  "j < length b \<Longrightarrow>
   fold (putChar command) is b ! j =
     (if 4 \<le> j \<and> j - 4 \<in> set is \<and> j - 4 < length command then ucast (command ! (j - 4)) else b ! j)"
proof (induction "is" arbitrary: b)
  case Nil
  then show ?case by simp
next
  case (Cons i "is")
  have "putChar command i b ! j = (if i < length command \<and> j = i + 4 then ucast (command ! i) else b ! j)"
    using Cons.prems by (simp add: putChar_def nth_list_update)
  then show ?case
    using Cons.IH [of "putChar command i b"] Cons.prems by auto
qed

lemma frame_prefix_nth:
  assumes "hdr < 4294967296" "n < 4294967296"
    "\<forall>c\<in>set (take 12 command). unat c < 256"
    "j < 20"
  defines "b1 \<equiv> (replicate (n + 24) 0)[0 := of_nat hdr, 0 + 1 := of_nat (hdr div 256), 0 + 2 := of_nat (hdr div 65536), 0 + 3 := of_nat (hdr div 16777216)]"
  defines "b2 \<equiv> fold (putChar command) [0..<12] b1"
  defines "b3 \<equiv> b2[16 := of_nat n, 16 + 1 := of_nat (n div 256), 16 + 2 := of_nat (n div 65536), 16 + 3 := of_nat (n div 16777216)]"
  shows "b3 ! j = (uint32LE hdr @ (map ucast (take 12 command) @ replicate (12 - length command) 0) @ uint32LE n) ! j"
proof -
  define C :: buffer where "C = map ucast (take 12 command) @ replicate (12 - length command) 0"
  have lC: "length C = 12" by (simp add: C_def min_def)
  have W: "\<And>i. i < 4 \<Longrightarrow> (uint32LE hdr @ C @ uint32LE n) ! i = uint32LE hdr ! i"
    "\<And>i. 4 \<le> i \<Longrightarrow> i < 16 \<Longrightarrow> (uint32LE hdr @ C @ uint32LE n) ! i = C ! (i - 4)"
    "\<And>i. 16 \<le> i \<Longrightarrow> i < 20 \<Longrightarrow> (uint32LE hdr @ C @ uint32LE n) ! i = uint32LE n ! (i - 16)"
    by (auto simp: nth_append lC)
  have l1: "length b1 = n + 24" by (simp add: b1_def)
  have l2: "length b2 = n + 24" by (simp add: b2_def l1)
  consider "j < 4" | "4 \<le> j" "j < 16" | "16 \<le> j" "j < 20" using assms(4) by linarith
  then show ?thesis
  proof cases
    case 1
    then have "b3 ! j = b1 ! j"
      using l1 l2 by (simp add: b3_def b2_def nth_fold_putChar)
    also have "\<dots> = uint32LE hdr ! j"
    proof -
      from 1 have "j = 0 \<or> j = 1 \<or> j = 2 \<or> j = 3" by linarith
      then show ?thesis
        by (auto simp: b1_def uint32LE_def nth_list_update)
    qed
    finally show ?thesis using 1 W(1) by (simp add: C_def)
  next
    case 2
    then have "b3 ! j = b2 ! j"
      using l2 by (simp add: b3_def)
    also have "\<dots> = (if j - 4 < length command then ucast (command ! (j - 4)) else 0)"
      using 2 l1 by (auto simp: b2_def nth_fold_putChar b1_def)
    also have "\<dots> = C ! (j - 4)"
      using 2 by (auto simp: nth_append C_def)
    finally show ?thesis using 2 W(2) by (simp add: C_def)
  next
    case 3
    then have "j = 16 \<or> j = 17 \<or> j = 18 \<or> j = 19" by linarith
    then have "b3 ! j = uint32LE n ! (j - 16)"
      using l2 by (auto simp: b3_def uint32LE_def nth_list_update)
    then show ?thesis using 3 W(3) by (simp add: C_def)
  qed
qed

lemma writeCommand_bad:
  assumes "\<exists>i\<in>set is. i < length command \<and> \<not> unat (command ! i) < 256"
  shows "writeCommand command is b = None"
  using assms
proof (induction "is" arbitrary: b)
  case Nil
  then show ?case by simp
next
  case (Cons i "is")
  then show ?case
    by (auto simp: writeUInt8_def split: option.splits)
qed

lemma take12_chars:
  "(\<forall>c\<in>set (take 12 command). unat c < 256) \<longleftrightarrow>
   (\<forall>i\<in>set [0..<12]. i < length command \<longrightarrow> unat (command ! i) < 256)"
proof
  assume a: "\<forall>c\<in>set (take 12 command). unat c < 256"
  show "\<forall>i\<in>set [0..<12]. i < length command \<longrightarrow> unat (command ! i) < 256"
  proof (intro ballI impI)
    fix i assume "i \<in> set [0..<12]" "i < length command"
    then have "i < length (take 12 command)" "take 12 command ! i = command ! i" by simp_all
    then have "command ! i \<in> set (take 12 command)" by (metis nth_mem)
    with a show "unat (command ! i) < 256" by blast
  qed
next
  assume a: "\<forall>i\<in>set [0..<12]. i < length command \<longrightarrow> unat (command ! i) < 256"
  show "\<forall>c\<in>set (take 12 command). unat c < 256"
  proof
    fix c assume "c \<in> set (take 12 command)"
    then obtain i where "i < length (take 12 command)" "take 12 command ! i = c"
      by (auto simp: in_set_conv_nth)
    with a show "unat c < 256" by auto
  qed
qed

lemma send_outgoingBuffer_wire:
  assumes "header p < 4294967296" "length data < 4294967296"
    "\<forall>c\<in>set (take 12 command). unat c < 256"
  shows "send_outgoingBuffer E command data p =
           Inr (wire_frame (header p) command (integrityTag E command data) data)"
proof -
  define n where "n = length data"
  define b1 where "b1 = (replicate (n + 24) (0::byte))[0 := of_nat (header p), 0 + 1 := of_nat (header p div 256),
     0 + 2 := of_nat (header p div 65536), 0 + 3 := of_nat (header p div 16777216)]"
  define b2 where "b2 = fold (putChar command) [0..<12] b1"
  define b3 where "b3 = b2[16 := of_nat n, 16 + 1 := of_nat (n div 256), 16 + 2 := of_nat (n div 65536),
     16 + 3 := of_nat (n div 16777216)]"
  define ck where "ck = Buffer_from (calculateChecksum E command data)"
  have l1: "length b1 = n + 24" by (simp add: b1_def)
  have l2: "length b2 = n + 24" by (simp add: b2_def l1)
  have l3: "length b3 = n + 24" by (simp add: b3_def l2)
  have w1: "writeUInt32LE (header p) 0 (Buffer_alloc (length data + 24)) = Some b1"
    using assms(1) by (simp add: writeUInt32LE_def Buffer_alloc_def b1_def n_def)
  have w2: "writeCommand command [0..<12] b1 = Some b2"
    unfolding b2_def
  proof (rule writeCommand_fold)
    show "\<forall>i\<in>set [0..<12]. i < length command \<longrightarrow> unat (command ! i) < 256 \<and> i + 4 < length b1"
      using assms(3) l1 unfolding take12_chars by auto
  qed
  have w3: "writeUInt32LE (length data) 16 b2 = Some b3"
    using assms(2) l2 by (simp add: writeUInt32LE_def b3_def n_def)
  have "take 20 b3 = uint32LE (header p) @ (map ucast (take 12 command) @ replicate (12 - length command) 0) @ uint32LE n"
  proof (rule nth_equalityI)
    show "length (take 20 b3) = length (uint32LE (header p) @ (map ucast (take 12 command) @ replicate (12 - length command) 0) @ uint32LE n)"
      using l3 by (simp add: min_def)
  next
    fix j assume "j < length (take 20 b3)"
    then have j: "j < 20" by simp
    from frame_prefix_nth [OF assms(1) _ assms(3) j, of n] assms(2)
    show "take 20 b3 ! j = (uint32LE (header p) @ (map ucast (take 12 command) @ replicate (12 - length command) 0) @ uint32LE n) ! j"
      using j by (simp add: b3_def b2_def b1_def n_def)
  qed
  moreover have "Buffer_copy data (Buffer_copy ck b3 20 0 64) 24 0 (length data) = take 20 b3 @ take 4 ck @ data"
    using l3 by (intro tag_data_copy) (simp_all add: ck_def n_def)
  moreover have "length ck = 64" by (simp add: ck_def)
  ultimately show ?thesis
    by (simp add: send_outgoingBuffer_def w1 w2 w3 Let_def ck_def [symmetric] wire_frame_def integrityTag_def n_def)
qed

lemma send_outgoingBuffer_throws:
  assumes "\<not> (header p < 4294967296 \<and> length data < 4294967296 \<and> (\<forall>c\<in>set (take 12 command). unat c < 256))"
  shows "send_outgoingBuffer E command data p = Inl RangeError"
proof (cases "header p < 4294967296")
  case False
  then show ?thesis by (simp add: send_outgoingBuffer_def writeUInt32LE_def)
next
  case h: True
  show ?thesis
  proof (cases "\<forall>c\<in>set (take 12 command). unat c < 256")
    case False
    then have "\<And>b. writeCommand command [0..<12] b = None"
      unfolding take12_chars by (intro writeCommand_bad) blast
    then show ?thesis by (simp add: send_outgoingBuffer_def split: option.splits)
  next
    case True
    with h assms have "\<not> length data < 4294967296" by simp
    then show ?thesis
      by (simp add: send_outgoingBuffer_def writeUInt32LE_def split: option.splits)
  qed
qed

lemma unat_ucast_byte:
  fixes x :: "16 word"
  shows "unat (ucast x :: byte) = unat x mod 256"
  by (simp add: unsigned_ucast_eq take_bit_eq_mod)

lemma unat_ucast_up:
  fixes y :: byte
  shows "unat (ucast y :: 16 word) = unat y"
proof -
  have "unat y < 256" using unsigned_less [of y, where 'a = nat] by simp
  then show ?thesis by (simp add: unsigned_ucast_eq take_bit_eq_mod)
qed

lemma ucast_back:
  fixes x :: "16 word"
  assumes "unat x < 256"
  shows "(ucast (ucast x :: byte) :: 16 word) = x"
  using assms by (simp add: word_unat_eq_iff unat_ucast_up unat_ucast_byte)

lemma ucast_pos:
  fixes x :: "16 word"
  assumes "0 < unat x" "unat x < 256"
  shows "(0 :: byte) < ucast x"
  using assms by (simp add: word_less_nat_alt unat_ucast_byte)

lemma message_command_wire:
  assumes "length c \<le> 12" "\<forall>x\<in>set c. 0 < unat x \<and> unat x < 256"
  shows "message_command (wire_frame h c t d) = c"
proof -
  have s: "Buffer_slice (wire_frame h c t d) 4 16 = map ucast c @ replicate (12 - length c) 0"
    using assms(1) by (simp add: Buffer_slice_def wire_frame_def)
  have f: "filter (\<lambda>s. 0 < s) (map ucast c :: buffer) = map ucast c"
    using assms(2) by (simp add: filter_id_conv ucast_pos)
  have "map ucast (map ucast c :: buffer) = c"
    using assms(2) by (simp add: map_idI ucast_back)
  then show ?thesis
    by (simp add: message_command_def s f)
qed

lemma demo_peer_simps:
  "inCursor demo_peer = 0" "inBuffer demo_peer = replicate 64 0" "header demo_peer = 0xA27CC1A2"
  "remotePublicKey demo_peer = None" "events demo_peer = []" "keypair demo_peer = None"
  "state demo_peer = Some Connected" "socket demo_peer = Some (Given 1)" "listeners demo_peer = []"
  by (simp_all add: demo_peer_def connect_def Peer_new_def Buffer_alloc_def)

lemma receive_frame:
  assumes "inCursor p = 0" "length m = L + 24" "length m \<le> length (inBuffer p)"
    "readUInt32LE m 0 = Some (header p)" "readUInt32LE m 16 = Some L"
  shows "socketEventData E m p =
           (if L = 0 \<or> readUInt32BE m 20 =
                 readUInt32BE (Buffer_from (calculateChecksum E (message_command m) (drop 24 m))) 0
            then ingested m p (deliver E (message_command m) (drop 24 m) p)
            else Inr (p\<lparr>inBuffer := m @ drop (length m) (inBuffer p), inCursor := 0\<rparr>))"
  by (simp add: single_frame [OF assms] processMessage_frame [OF assms(2,5)] ingested_def)

lemma receive_wire_frame:
  fixes E :: platform and c :: jsstring and d :: buffer and r :: peer
  assumes "inCursor r = 0" "header r < 4294967296"
    "length c \<le> 12" "\<forall>x\<in>set c. 0 < unat x \<and> unat x < 256"
    "length d < 4294967296" "length d + 24 \<le> length (inBuffer r)"
  defines "f \<equiv> wire_frame (header r) c (integrityTag E c d) d"
  shows "socketEventData E f r = ingested f r (deliver E c d r)"
proof -
  have l: "length f = length d + 24" by (simp add: f_def)
  have c: "message_command f = c" unfolding f_def using assms(3,4) by (rule message_command_wire)
  have d: "drop 24 f = d" by (simp add: f_def wire_frame_payload)
  have t: "readUInt32BE f 20 = readUInt32BE (Buffer_from (calculateChecksum E c d)) 0"
    by (simp add: f_def wire_frame_tag integrityTag_read)
  have "socketEventData E f r =
          (if length d = 0 \<or> readUInt32BE f 20 =
                 readUInt32BE (Buffer_from (calculateChecksum E (message_command f) (drop 24 f))) 0
            then ingested f r (deliver E (message_command f) (drop 24 f) r)
            else Inr (r\<lparr>inBuffer := f @ drop (length f) (inBuffer r), inCursor := 0\<rparr>))"
  proof (rule receive_frame)
    show "inCursor r = 0" by fact
    show "length f = length d + 24" by (fact l)
    show "length f \<le> length (inBuffer r)" using l assms(6) by simp
    show "readUInt32LE f 0 = Some (header r)" unfolding f_def using assms(2) by (rule wire_frame_header)
    show "readUInt32LE f 16 = Some (length d)" unfolding f_def using assms(5) by (rule wire_frame_length)
  qed
  then show ?thesis by (simp add: c d t)
qed

lemma replicate_6: "replicate 6 (0::byte) = [0, 0, 0, 0, 0, 0]"
  by (simp add: numeral_eq_Suc)

lemma replicate_10: "replicate 10 (0::byte) = [0, 0, 0, 0, 0, 0, 0, 0, 0, 0]"
  by (simp add: numeral_eq_Suc)

lemma integrityTag_digits:
  "integrityTag E command data =
     map (\<lambda>i. of_nat (of_char (digit (unat (hmac E command data) div 16 ^ (63 - i) mod 16)))) [0..<4]"
proof -
  have "take 4 [0..<64] = [0..<4]" by (simp add: take_upt)
  then show ?thesis
    by (simp add: integrityTag_def Buffer_from_def calculateChecksum_def digest_hex_def take_map)
qed

lemma demo_tag:
  "integrityTag demo (js ''HI'') [1, 2, 3] = [100, 98, 56, 49]"
  "integrityTag demo (js ''HI'') [] = [99, 56, 50, 49]"
  "integrityTag demo (js ''SECURE'') [1, 2, 3] = [101, 98, 52, 100]"
  "integrityTag demo (js ''SECURE'') [255] = [48, 98, 102, 56]"
  "integrityTag demo (js ''SECURE'') [254] = [100, 102, 102, 50]"
  "integrityTag demo (js ''ABCDEFGHIJKLMNOP'') [1, 2, 3] = [99, 98, 55, 54]"
  "integrityTag demo (js ''ABCDEFGHIJKL'') [1, 2, 3] = [54, 56, 56, 100]"
  by (simp_all add: integrityTag_digits demo_def sha256_hmac_def js_def digit_def upt_rec)

lemmas wire = wire_frame_def uint32LE_def js_def demo_tag [unfolded js_def, simplified] replicate_6 replicate_10

lemma secure_123:
  "wire_frame 0xA27CC1A2 (js ''SECURE'') (integrityTag demo (js ''SECURE'') [1, 2, 3]) [1, 2, 3] =
   [162, 193, 124, 162, 83, 69, 67, 85, 82, 69, 0, 0, 0, 0, 0, 0, 3, 0, 0, 0, 101, 98, 52, 100, 1, 2, 3]"
  by (simp add: wire)

lemma demo_expected:
  "readUInt32BE (Buffer_from (calculateChecksum demo (js ''HI'') [1, 2, 3])) 0 = Some 1684158513"
  "readUInt32BE (Buffer_from (calculateChecksum demo (js ''SECURE'') [1, 2, 3])) 0 = Some 1700934756"
  "readUInt32BE (Buffer_from (calculateChecksum demo (js ''SECURE'') [255])) 0 = Some 811755064"
  "readUInt32BE (Buffer_from (calculateChecksum demo (js ''SECURE'') [254])) 0 = Some 1684432434"
  "readUInt32BE (Buffer_from (calculateChecksum demo (js ''ABCDEFGHIJKL'') [1, 2, 3])) 0 = Some 909654116"
  unfolding integrityTag_read [symmetric] by (simp_all add: demo_tag readUInt32BE_def)

lemma bad_tag_frame_facts:
  "length bad_tag_frame = 3 + 24" "readUInt32LE bad_tag_frame 0 = Some (header demo_peer)"
  "readUInt32LE bad_tag_frame 16 = Some 3"
  "message_command bad_tag_frame = js ''HI''" "drop 24 bad_tag_frame = [1, 2, 3]"
  "readUInt32BE bad_tag_frame 20 = Some 1647718708"
  by (simp_all add: bad_tag_frame_def readUInt32LE_def readUInt32BE_def demo_peer_simps
        message_command_def Buffer_slice_def js_def)

lemma empty_frame_facts:
  "length empty_frame = 0 + 24" "readUInt32LE empty_frame 0 = Some (header demo_peer)"
  "readUInt32LE empty_frame 16 = Some 0"
  "message_command empty_frame = js ''HI''" "drop 24 empty_frame = []"
  "readUInt32BE empty_frame 20 = Some 16909060"
  by (simp_all add: empty_frame_def readUInt32LE_def readUInt32BE_def demo_peer_simps
        message_command_def Buffer_slice_def js_def)

lemma secure_frame_facts:
  "length secure_frame = 3 + 24" "readUInt32LE secure_frame 0 = Some (header demo_peer)"
  "readUInt32LE secure_frame 16 = Some 3"
  "message_command secure_frame = js ''SECURE''" "drop 24 secure_frame = [1, 2, 3]"
  "readUInt32BE secure_frame 20 = Some 1700934756"
  by (simp_all add: secure_frame_def readUInt32LE_def readUInt32BE_def demo_peer_simps
        message_command_def Buffer_slice_def js_def)

lemma send_tag:
  assumes "send_outgoingBuffer E command data p = Inr f"
  shows "Buffer_slice f 20 24 = integrityTag E command data"
proof -
  define ck where "ck = Buffer_from (calculateChecksum E command data)"
  have lck: "length ck = 64" by (simp add: ck_def)
  from assms obtain b3 where f: "f = Buffer_copy data (Buffer_copy ck b3 20 0 64) 24 0 (length data)"
    and l: "length b3 = length data + 24"
    by (auto simp: send_outgoingBuffer_def Let_def Buffer_alloc_def ck_def split: option.splits
             dest!: writeUInt32LE_length writeCommand_length)
  have "f = take 20 b3 @ take 4 ck @ data"
    unfolding f using lck l by (rule tag_data_copy)
  moreover have "length (take 20 b3) = 20" using l by simp
  moreover have "length (take 4 ck) = 4" using lck by simp
  ultimately have "Buffer_slice f 20 24 = take 4 ck"
    by (simp add: Buffer_slice_def)
  then show ?thesis by (simp add: integrityTag_def ck_def)
qed

subsection \<open>Overflow and reconnection\<close>

lemma overflow_step:
  assumes "length d + inCursor p > length (inBuffer p)" "''error'' \<in> set (listeners p)"
  shows "socketEventData E d p =
           Inr (p\<lparr>inCursor := length (inBuffer p) + 1,
                  events := events p @ [ErrorEv ''Peer exceeded max receiving buffer'']\<rparr>)"
  using assms by (simp add: socketEventData_def emit_error)

lemma poisoned_stays:
  "inCursor p = length (inBuffer p) + 1 \<Longrightarrow> ''error'' \<in> set (listeners p) \<Longrightarrow>
   dataEvents E ds p = Inr (p\<lparr>events := events p @ replicate (length ds) (ErrorEv ''Peer exceeded max receiving buffer'')\<rparr>)"
proof (induction ds arbitrary: p)
  case Nil
  then show ?case by simp
next
  case (Cons d ds)
  let ?q = "p\<lparr>inCursor := length (inBuffer p) + 1,
              events := events p @ [ErrorEv ''Peer exceeded max receiving buffer'']\<rparr>"
  have step: "socketEventData E d p = Inr ?q"
    using Cons.prems by (intro overflow_step) simp_all
  have q: "inCursor ?q = length (inBuffer ?q) + 1" "''error'' \<in> set (listeners ?q)"
    using Cons.prems by simp_all
  show ?case
    using Cons.IH [OF q] Cons.prems
    by (simp add: step replicate_append_same)
qed

lemma connect_dial:
  "socket p = None \<Longrightarrow>
   fst (connect E None p) = p\<lparr>inBuffer := Buffer_alloc (bufferSize p), inCursor := 0, state := Some Connecting,
      socket := Some (Created (port (host p)) (address (host p)))\<rparr>"
  by (simp add: connect_def Let_def split: option.splits sum.splits)

lemma socketEventError_connecting:
  assumes "state p = Some Connecting" "maxConnectionAttemps p = None"
  shows "socketEventError E err p =
           Inr (fst (connect E None (p\<lparr>connectionAttempts := connectionAttempts p + 1, socket := None\<rparr>)))"
    and "state (fst (connect E None (p\<lparr>connectionAttempts := connectionAttempts p + 1, socket := None\<rparr>)))
           = Some Connecting"
    and "maxConnectionAttemps (fst (connect E None (p\<lparr>connectionAttempts := connectionAttempts p + 1, socket := None\<rparr>)))
           = None"
    and "connectionAttempts (fst (connect E None (p\<lparr>connectionAttempts := connectionAttempts p + 1, socket := None\<rparr>)))
           = connectionAttempts p + 1"
    and "events (fst (connect E None (p\<lparr>connectionAttempts := connectionAttempts p + 1, socket := None\<rparr>)))
           = events p"
  using assms by (simp_all add: socketEventError_def connect_dial js_ge_def Let_def)

lemma errors_while_connecting:
  assumes "state p = Some Connecting" "maxConnectionAttemps p = None"
  shows "\<exists>q. errorEvents E errs p = Inr q \<and> state q = Some Connecting \<and>
             maxConnectionAttemps q = None \<and>
             connectionAttempts q = connectionAttempts p + length errs \<and> events q = events p"
  using assms
proof (induction errs arbitrary: p)
  case Nil
  then show ?case by simp
next
  case (Cons err errs)
  note s1 = socketEventError_connecting(1) [OF Cons.prems, where E = E and err = err]
  note s = socketEventError_connecting(2-5) [OF Cons.prems, where E = E]
  from Cons.IH [OF s(1,2)] s(3,4) show ?case
    by (auto simp: s1)
qed

subsection \<open>Chunked and whole ingestion\<close>

lemma rebuffer_simps [simp]:
  "inBuffer (rebuffer b n p) = b" "inCursor (rebuffer b n p) = n" "header (rebuffer b n p) = header p"
  "events (rebuffer b n p) = events p" "remotePublicKey (rebuffer b n p) = remotePublicKey p"
  "rebuffer b n (rebuffer b' n' p) = rebuffer b n p"
  by (simp_all add: rebuffer_def)


lemma scan_step:
  assumes "c < inCursor p"
  shows "scan E c me p =
    (case readUInt32LE (inBuffer p) c of
       None \<Rightarrow> Inl (RangeError, p)
     | Some h \<Rightarrow>
         if h = header p then
           if c + 16 < inCursor p then
             (case readUInt32LE (inBuffer p) (c + 16) of
                None \<Rightarrow> Inl (RangeError, p)
              | Some L \<Rightarrow>
                  if c + L + 24 \<le> inCursor p then
                    (case processMessage E (Buffer_slice (inBuffer p) c (c + L + 24)) p of
                       Inl e \<Rightarrow> Inl (e, p)
                     | Inr p' \<Rightarrow> scan E (c + L + 24) (c + L + 24) p')
                  else Inr (p, me))
           else Inr (p, me)
         else scan E (c + 1) me p)"
  using assms
  by (subst scan.simps) (simp add: scan_done split: option.splits)

lemma scan_result:
  "scan E c me p = Inr (q, me') \<Longrightarrow>
   inBuffer q = inBuffer p \<and> inCursor q = inCursor p \<and> header q = header p \<and>
   ((q = p \<and> me' = me) \<or> (c + 24 \<le> me' \<and> me' \<le> inCursor p))"
proof (induction "inCursor p - c" arbitrary: c me p rule: less_induct)
  case less
  show ?case
  proof (cases "c < inCursor p")
    case False
    then show ?thesis using less.prems by (simp add: scan_done)
  next
    case True
    note st = scan_step [OF True, of E me]
    from less.prems st obtain h where h: "readUInt32LE (inBuffer p) c = Some h"
      by (auto split: option.splits)
    show ?thesis
    proof (cases "h = header p")
      case False
      then have "scan E (c + 1) me p = Inr (q, me')"
        using less.prems st h by simp
      from less.hyps [OF _ this] True show ?thesis by auto
    next
      case hm: True
      show ?thesis
      proof (cases "c + 16 < inCursor p")
        case False
        then show ?thesis using less.prems st h hm by simp
      next
        case far: True
        from less.prems st h hm far obtain L where L: "readUInt32LE (inBuffer p) (c + 16) = Some L"
          by (auto split: option.splits)
        show ?thesis
        proof (cases "c + L + 24 \<le> inCursor p")
          case False
          then show ?thesis using less.prems st h hm far L by simp
        next
          case complete: True
          from less.prems st h hm far L complete obtain p'
            where p': "processMessage E (Buffer_slice (inBuffer p) c (c + L + 24)) p = Inr p'"
              and rest: "scan E (c + L + 24) (c + L + 24) p' = Inr (q, me')"
            by (auto split: sum.splits)
          note f = processMessage_fields [OF p']
          have "inCursor p' - (c + L + 24) < inCursor p - c" using f True by simp
          from less.hyps [OF this rest] f complete show ?thesis by auto
        qed
      qed
    qed
  qed
qed







lemma scanned_simps [simp]:
  "scanned (Inl (ex, p)) = p" "scanned (Inr (p, me)) = p"
  by (simp_all add: scanned_def)







lemma whole_simps [simp]:
  "inCursor (whole S p0 x) = length S" "events (whole S p0 x) = events x"
  "remotePublicKey (whole S p0 x) = remotePublicKey x"
  "whole S p0 (x\<lparr>inBuffer := b, inCursor := n\<rparr>) = whole S p0 x"
  "whole S p0 (rebuffer b n x) = whole S p0 x"
  "whole S p0 (whole S p0 x) = whole S p0 x"
  by (simp_all add: whole_def rebuffer_def)










lemma after_simps [simp]: "after (Inl (ex, p)) = p" "after (Inr p) = p"
  by (simp_all add: after_def)



lemma replicate_64: "replicate 64 (0::byte) = [0,0,0,0,0,0,0,0, 0,0,0,0,0,0,0,0, 0,0,0,0,0,0,0,0, 0,0,0,0,0,0,0,0,
   0,0,0,0,0,0,0,0, 0,0,0,0,0,0,0,0, 0,0,0,0,0,0,0,0, 0,0,0,0,0,0,0,0]"
  by (simp add: numeral_eq_Suc)

subsection \<open>A frame anywhere in the accumulation buffer\<close>

lemma slice_length:
  "fin \<le> length b \<Longrightarrow> length (Buffer_slice b start fin) = fin - start"
  by (simp add: Buffer_slice_def)

lemma slice_nth:
  "start + i < fin \<Longrightarrow> fin \<le> length b \<Longrightarrow> Buffer_slice b start fin ! i = b ! (start + i)"
  by (simp add: Buffer_slice_def)

lemma readUInt32LE_slice:
  assumes "start + off + 4 \<le> fin" "fin \<le> length b"
  shows "readUInt32LE (Buffer_slice b start fin) off = readUInt32LE b (start + off)"
  using assms by (simp add: readUInt32LE_def slice_length slice_nth add.assoc)

lemma frame_slice:
  assumes "c + L + 24 \<le> length b" "readUInt32LE b (c + 16) = Some L"
  shows "length (Buffer_slice b c (c + L + 24)) = L + 24"
    and "readUInt32LE (Buffer_slice b c (c + L + 24)) 16 = Some L"
    and "readUInt32LE (Buffer_slice b c (c + L + 24)) 0 = readUInt32LE b c"
proof -
  show "length (Buffer_slice b c (c + L + 24)) = L + 24"
    using assms(1) by (simp add: slice_length)
  have "readUInt32LE (Buffer_slice b c (c + L + 24)) 16 = readUInt32LE b (c + 16)"
    using assms(1) by (intro readUInt32LE_slice) simp_all
  then show "readUInt32LE (Buffer_slice b c (c + L + 24)) 16 = Some L" using assms(2) by simp
  have "readUInt32LE (Buffer_slice b c (c + L + 24)) 0 = readUInt32LE b (c + 0)"
    using assms(1) by (intro readUInt32LE_slice) simp_all
  then show "readUInt32LE (Buffer_slice b c (c + L + 24)) 0 = readUInt32LE b c" by simp
qed

lemma scan_frame:
  assumes "c + L + 24 \<le> inCursor p" "readUInt32LE (inBuffer p) c = Some (header p)"
    "readUInt32LE (inBuffer p) (c + 16) = Some L"
  shows "scan E c me p =
           (case processMessage E (Buffer_slice (inBuffer p) c (c + L + 24)) p of
              Inl e \<Rightarrow> Inl (e, p)
            | Inr p' \<Rightarrow> scan E (c + L + 24) (c + L + 24) p')"
proof -
  have lt: "c < inCursor p" using assms(1) by simp
  show ?thesis
    using assms by (simp add: scan_step [OF lt])
qed

lemma message_payload_tag:
  "message_payload E message L checksum =
     (if L > 0
      then if Some checksum \<noteq> readUInt32BE (integrityTag E (message_command message)
                   (Buffer_copy message (Buffer_alloc L) 0 24 (length message))) 0
           then Inr None
           else Inr (Some (Buffer_copy message (Buffer_alloc L) 0 24 (length message)))
      else Inr (Some (Buffer_alloc 0)))"
proof -
  obtain w where w: "readUInt32BE (Buffer_from (calculateChecksum E (message_command message)
      (Buffer_copy message (Buffer_alloc L) 0 24 (length message)))) 0 = Some w"
    by (simp add: readUInt32BE_def)
  show ?thesis
    unfolding integrityTag_read by (auto simp: message_payload_def Let_def w)
qed

subsection \<open>Decoding and the command field\<close>

lemma Buffer_toString_ascii:
  "\<forall>b\<in>set bs. b < 128 \<Longrightarrow> Buffer_toString bs = map ucast bs"
  by (induction bs) (simp_all add: Buffer_toString.simps(2))

lemma toString_examples:
  "Buffer_toString [1, 2, 3] = [1, 2, 3]" "Buffer_toString [255] = [0xFFFD]"
  "Buffer_toString [254] = [0xFFFD]" "Buffer_toString [75, 69, 89] = js ''KEY''"
  "Buffer_toString [0xE2, 0x82, 0xAC] = [0x20AC]"
  "Buffer_toString [0xF0, 0x9F, 0x98, 0x80] = [0xD83D, 0xDE00]"
  "Buffer_toString [0xC3, 0xA9, 0x41] = [0xE9, 0x41]"
  "Buffer_toString [0xE2, 0x82] = [0xFFFD]"
  "Buffer_toString [0xC0, 0x80] = [0xFFFD, 0xFFFD]"
  "Buffer_toString [0xED, 0xA0, 0x80] = [0xFFFD, 0xFFFD, 0xFFFD]"
  by (simp_all add: Buffer_toString.simps(2) js_def utf16_def continuation_def)

lemma filter_command:
  fixes xs :: jsstring
  assumes "\<forall>x\<in>set xs. unat x < 256"
  shows "map ucast (filter (\<lambda>s. 0 < s) (map ucast xs :: buffer)) = filter (\<lambda>x. x \<noteq> 0) xs"
  using assms
proof (induction xs)
  case Nil
  then show ?case by simp
next
  case (Cons x xs)
  have "(0 < (ucast x :: byte)) = (x \<noteq> 0)"
    using Cons.prems by (auto simp: word_less_nat_alt unat_ucast_byte unat_gt_0)
  then show ?case using Cons by (simp add: ucast_back)
qed

lemma message_command_wire_any:
  assumes "\<forall>x\<in>set (take 12 c). unat x < 256"
  shows "message_command (wire_frame h c t d) = filter (\<lambda>x. x \<noteq> 0) (take 12 c)"
proof -
  have s: "Buffer_slice (wire_frame h c t d) 4 16 = map ucast (take 12 c) @ replicate (12 - length c) 0"
    by (simp add: Buffer_slice_def wire_frame_def min_def)
  show ?thesis
    by (simp add: message_command_def s filter_command [OF assms])
qed

lemma send_built:
  assumes "send_outgoingBuffer E command data p = Inr f"
  shows "header p < 4294967296 \<and> length data < 4294967296 \<and> (\<forall>c\<in>set (take 12 command). unat c < 256) \<and>
         f = wire_frame (header p) command (integrityTag E command data) data"
proof -
  have ok: "header p < 4294967296 \<and> length data < 4294967296 \<and> (\<forall>c\<in>set (take 12 command). unat c < 256)"
  proof (rule ccontr)
    assume "\<not> ?thesis"
    from send_outgoingBuffer_throws [OF this, of E] assms show False by simp
  qed
  then have "send_outgoingBuffer E command data p =
      Inr (wire_frame (header p) command (integrityTag E command data) data)"
    by (intro send_outgoingBuffer_wire) simp_all
  with assms ok show ?thesis by simp
qed

lemma short_command:
  fixes command :: jsstring
  shows "length command \<le> 12 \<Longrightarrow> 0 \<notin> set command \<Longrightarrow> filter (\<lambda>x. x \<noteq> 0) (take 12 command) = command"
  by (simp add: filter_id_conv) metis

subsection \<open>The concrete frames\<close>

lemma holding_simps:
  "inCursor (holding bs) = length bs" "inBuffer (holding bs) = bs @ replicate (64 - length bs) 0"
  "header (holding bs) = 0xA27CC1A2" "remotePublicKey (holding bs) = None" "events (holding bs) = []"
  "listeners (holding bs) = []"
  by (simp_all add: holding_def demo_peer_simps)

lemma readUInt32LE_mid:
  "off + 4 \<le> length m \<Longrightarrow> readUInt32LE (a @ m @ r) (length a + off) = readUInt32LE m off"
  by (simp add: readUInt32LE_def nth_append add.assoc)

lemma slice_mid: "Buffer_slice (a @ m @ r) (length a) (length a + length m) = m"
  by (simp add: Buffer_slice_def)

lemma held_frame:
  assumes "20 \<le> length m"
  shows "readUInt32LE (inBuffer (holding (a @ m))) (length a) = readUInt32LE m 0"
    and "readUInt32LE (inBuffer (holding (a @ m))) (length a + 16) = readUInt32LE m 16"
    and "Buffer_slice (inBuffer (holding (a @ m))) (length a) (length a + length m) = m"
proof -
  show "readUInt32LE (inBuffer (holding (a @ m))) (length a) = readUInt32LE m 0"
    using readUInt32LE_mid [of 0 m a] assms by (simp add: holding_simps)
  show "readUInt32LE (inBuffer (holding (a @ m))) (length a + 16) = readUInt32LE m 16"
    using readUInt32LE_mid [of 16 m a] assms by (simp add: holding_simps)
  show "Buffer_slice (inBuffer (holding (a @ m))) (length a) (length a + length m) = m"
    using slice_mid [of a m] by (simp add: holding_simps)
qed

lemma scan_holding_end: "scan E (length bs) k (holding bs) = Inr (holding bs, k)"
  by (simp add: scan_done holding_simps)

lemma bad_tag_mismatch:
  "readUInt32BE bad_tag_frame 20 \<noteq>
     readUInt32BE (Buffer_from (calculateChecksum demo (message_command bad_tag_frame) (drop 24 bad_tag_frame))) 0"
  by (simp add: bad_tag_frame_facts demo_expected)

lemma hi_frame_facts:
  "length hi_frame = 3 + 24" "readUInt32LE hi_frame 0 = Some (header demo_peer)"
  "readUInt32LE hi_frame 16 = Some 3"
  "message_command hi_frame = js ''HI''" "drop 24 hi_frame = [1, 2, 3]"
  "readUInt32BE hi_frame 20 = Some 1684158513"
  by (simp_all add: hi_frame_def readUInt32LE_def readUInt32BE_def demo_peer_simps
        message_command_def Buffer_slice_def js_def)

lemma long_frame_facts:
  "length long_frame = 3 + 24" "readUInt32LE long_frame 0 = Some (header demo_peer)"
  "readUInt32LE long_frame 16 = Some 3"
  "message_command long_frame = js ''ABCDEFGHIJKL''" "drop 24 long_frame = [1, 2, 3]"
  "readUInt32BE long_frame 20 = Some 1667381046"
  by (simp_all add: long_frame_def readUInt32LE_def readUInt32BE_def demo_peer_simps
        message_command_def Buffer_slice_def js_def)

lemma secure_ff_facts:
  "length secure_ff_frame = 1 + 24" "readUInt32LE secure_ff_frame 0 = Some (header demo_peer)"
  "readUInt32LE secure_ff_frame 16 = Some 1"
  "message_command secure_ff_frame = js ''SECURE''" "drop 24 secure_ff_frame = [255]"
  "readUInt32BE secure_ff_frame 20 = Some 811755064"
  by (simp_all add: secure_ff_frame_def readUInt32LE_def readUInt32BE_def demo_peer_simps
        message_command_def Buffer_slice_def js_def)

lemma secure_fe_facts:
  "length secure_fe_frame = 1 + 24" "readUInt32LE secure_fe_frame 0 = Some (header demo_peer)"
  "readUInt32LE secure_fe_frame 16 = Some 1"
  "message_command secure_fe_frame = js ''SECURE''" "drop 24 secure_fe_frame = [254]"
  "readUInt32BE secure_fe_frame 20 = Some 1684432434"
  by (simp_all add: secure_fe_frame_def readUInt32LE_def readUInt32BE_def demo_peer_simps
        message_command_def Buffer_slice_def js_def)

lemma send_hi_frame: "send_outgoingBuffer demo (js ''HI'') [1, 2, 3] demo_peer = Inr hi_frame"
proof -
  have "send_outgoingBuffer demo (js ''HI'') [1, 2, 3] demo_peer =
      Inr (wire_frame (header demo_peer) (js ''HI'') (integrityTag demo (js ''HI'') [1, 2, 3]) [1, 2, 3])"
    by (intro send_outgoingBuffer_wire) (simp_all add: demo_peer_simps js_def)
  then show ?thesis by (simp add: wire demo_peer_simps hi_frame_def)
qed

lemma send_long_frame:
  "send_outgoingBuffer demo (js ''ABCDEFGHIJKLMNOP'') [1, 2, 3] demo_peer = Inr long_frame"
proof -
  have "send_outgoingBuffer demo (js ''ABCDEFGHIJKLMNOP'') [1, 2, 3] demo_peer =
      Inr (wire_frame (header demo_peer) (js ''ABCDEFGHIJKLMNOP'')
             (integrityTag demo (js ''ABCDEFGHIJKLMNOP'') [1, 2, 3]) [1, 2, 3])"
    by (intro send_outgoingBuffer_wire) (simp_all add: demo_peer_simps js_def)
  then show ?thesis by (simp add: wire demo_peer_simps long_frame_def)
qed

lemmas run = socketEventData_def scan.simps readUInt32LE_def readUInt32BE_def processMessage_def
  message_payload_tag message_command_def Buffer_slice_def emit_def deliver_def Buffer_copy_def
  Buffer_alloc_def js_def demo_tag [unfolded js_def, simplified]




lemma two_frame_runs:
  "map_sum fst (\<lambda>q. (events q, remotePublicKey q, inCursor q))
     (socketEventData demo (empty_frame @ bad_tag_frame) demo_peer) = Inr ([MessageEv (js ''HI'') []], None, 0)"
  "map_sum fst (\<lambda>q. (events q, remotePublicKey q, inCursor q))
     (socketEventData demo ([9, 9, 9] @ empty_frame) demo_peer) = Inr ([MessageEv (js ''HI'') []], None, 0)"
  "map_sum fst (\<lambda>q. (events q, remotePublicKey q, inCursor q))
     (socketEventData demo (empty_frame @ secure_frame) demo_peer) = Inr ([MessageEv (js ''HI'') []], Some [1, 2, 3], 0)"
  unfolding demo_peer_def connect_def Peer_new_def
  by (simp_all add: empty_frame_def bad_tag_frame_def secure_frame_def run replicate_64
        Buffer_toString.simps(2))

section \<open>The claims\<close>

text \<open>
  Claim C1, amended. A Peer without a key pair sends a command of at most 12 characters,
  none of them NUL and each a single byte (every ASCII character is), other than SECURE,
  with a payload shorter than \<open>2^32\<close> bytes. The frame is the one of the wire format, and
  a Peer with the same magic number, an empty accumulation buffer that the frame fits into
  and no remote public key, given the frame as one chunk, raises exactly one notification,
  the message with that command and that payload, and consumes the frame.
\<close>

theorem send_receive_round_trip:
  fixes E :: platform and command :: jsstring and payload :: buffer and s r :: peer
  assumes "keypair s = None" "header s < 4294967296" "header r = header s"
    "length command \<le> 12" "\<forall>x\<in>set command. 0 < unat x \<and> unat x < 256"
    "command \<noteq> js ''SECURE''"
    "length payload < 4294967296" "length payload + 24 \<le> length (inBuffer r)"
    "inCursor r = 0" "remotePublicKey r = None"
  defines "f \<equiv> wire_frame (header s) command (integrityTag E command payload) payload"
  shows "send_data E command (Some payload) s = Inr payload \<and>
         send_outgoingBuffer E command payload s = Inr f \<and>
         socketEventData E f r =
           Inr (r\<lparr>events := events r @ [MessageEv command payload],
                  inBuffer := f @ drop (length f) (inBuffer r), inCursor := 0\<rparr>)"
proof -
  have 1: "send_data E command (Some payload) s = Inr payload"
    using assms(1) by (simp add: send_data_def)
  have 2: "send_outgoingBuffer E command payload s = Inr f"
    unfolding f_def using assms(2,5,7) by (intro send_outgoingBuffer_wire) (auto dest: in_set_takeD)
  have "socketEventData E (wire_frame (header r) command (integrityTag E command payload) payload) r =
        ingested (wire_frame (header r) command (integrityTag E command payload) payload) r
          (deliver E command payload r)"
    using assms(2-5,7-9) by (intro receive_wire_frame) simp_all
  then have 3: "socketEventData E f r =
           Inr (r\<lparr>events := events r @ [MessageEv command payload],
                  inBuffer := f @ drop (length f) (inBuffer r), inCursor := 0\<rparr>)"
    using assms(3,6,10) by (simp add: f_def deliver_def ingested_def)
  show ?thesis using 1 2 3 by simp
qed

theorem send_receive_round_trip_witness:
  "send_data demo (js ''HI'') (Some [1, 2, 3]) demo_peer = Inr [1, 2, 3] \<and>
   send_outgoingBuffer demo (js ''HI'') [1, 2, 3] demo_peer =
     Inr (wire_frame (header demo_peer) (js ''HI'') (integrityTag demo (js ''HI'') [1, 2, 3]) [1, 2, 3]) \<and>
   socketEventData demo
       (wire_frame (header demo_peer) (js ''HI'') (integrityTag demo (js ''HI'') [1, 2, 3]) [1, 2, 3]) demo_peer =
     Inr (demo_peer\<lparr>events := events demo_peer @ [MessageEv (js ''HI'') [1, 2, 3]],
            inBuffer := wire_frame (header demo_peer) (js ''HI'') (integrityTag demo (js ''HI'') [1, 2, 3]) [1, 2, 3]
                 @ drop (length (wire_frame (header demo_peer) (js ''HI'') (integrityTag demo (js ''HI'') [1, 2, 3]) [1, 2, 3]))
                     (inBuffer demo_peer),
            inCursor := 0\<rparr>)"
proof -
  have h: "keypair demo_peer = None" "header demo_peer < 4294967296" "header demo_peer = header demo_peer"
    "length (js ''HI'') \<le> 12" "\<forall>x\<in>set (js ''HI''). 0 < unat x \<and> unat x < 256"
    "js ''HI'' \<noteq> js ''SECURE''" "length [1, 2, 3 :: byte] < 4294967296"
    "length [1, 2, 3 :: byte] + 24 \<le> length (inBuffer demo_peer)"
    "inCursor demo_peer = 0" "remotePublicKey demo_peer = None"
    by (simp_all add: demo_peer_simps js_def)
  show ?thesis
    by (rule send_receive_round_trip [OF h])
qed

theorem round_trip_SECURE_counterexample:
  "send_data demo (js ''SECURE'') (Some [1, 2, 3]) demo_peer = Inr [1, 2, 3] \<and>
   send_outgoingBuffer demo (js ''SECURE'') [1, 2, 3] demo_peer =
     Inr [162, 193, 124, 162, 83, 69, 67, 85, 82, 69, 0, 0, 0, 0, 0, 0, 3, 0, 0, 0, 101, 98, 52, 100, 1, 2, 3] \<and>
   socketEventData demo
     [162, 193, 124, 162, 83, 69, 67, 85, 82, 69, 0, 0, 0, 0, 0, 0, 3, 0, 0, 0, 101, 98, 52, 100, 1, 2, 3] demo_peer =
     Inr (demo_peer\<lparr>inBuffer :=
              [162, 193, 124, 162, 83, 69, 67, 85, 82, 69, 0, 0, 0, 0, 0, 0, 3, 0, 0, 0, 101, 98, 52, 100, 1, 2, 3]
                @ replicate 37 0,
            inCursor := 0, remotePublicKey := Some [1, 2, 3]\<rparr>) \<and>
   events demo_peer = []"
proof -
  have c: "length (js ''SECURE'') \<le> 12" "\<forall>x\<in>set (js ''SECURE''). 0 < unat x \<and> unat x < 256"
    by (simp_all add: js_def)
  have 1: "send_data demo (js ''SECURE'') (Some [1, 2, 3]) demo_peer = Inr [1, 2, 3]"
    by (simp add: send_data_def demo_peer_simps)
  have 2: "send_outgoingBuffer demo (js ''SECURE'') [1, 2, 3] demo_peer =
      Inr (wire_frame (header demo_peer) (js ''SECURE'') (integrityTag demo (js ''SECURE'') [1, 2, 3]) [1, 2, 3])"
    using c(2) by (intro send_outgoingBuffer_wire) (auto simp: demo_peer_simps dest: in_set_takeD)
  have 3: "socketEventData demo (wire_frame (header demo_peer) (js ''SECURE'') (integrityTag demo (js ''SECURE'') [1, 2, 3]) [1, 2, 3]) demo_peer
     = ingested (wire_frame (header demo_peer) (js ''SECURE'') (integrityTag demo (js ''SECURE'') [1, 2, 3]) [1, 2, 3])
         demo_peer (deliver demo (js ''SECURE'') [1, 2, 3] demo_peer)"
    using c by (intro receive_wire_frame) (simp_all add: demo_peer_simps)
  have 4: "deliver demo (js ''SECURE'') [1, 2, 3] demo_peer = Inr (demo_peer\<lparr>remotePublicKey := Some [1, 2, 3]\<rparr>)"
    by (simp add: deliver_def toString_examples)
  show ?thesis
    using 1 2 3 by (simp add: 4 demo_peer_simps secure_123 ingested_def)
qed



text \<open>
  Claim C3, what the code does. A Peer made by the constructor, with whatever maximum, with
  or without a key pair and whatever listeners, that dials and then gets any sequence of
  transport errors is still Connecting with a counter that is the number of errors, has
  raised no notification at all, and answers the next error by calling \<open>connect\<close> again:
  the comparison with the maximum reads a property that is never assigned and is always
  false.
\<close>

theorem reconnection_never_stops:
  "(let p0 = fst (connect E None ((Peer_new h hdr bsize mx)\<lparr>keypair := kp, listeners := ls\<rparr>));
        pn = after (errorEvents E errs p0)
    in state p0 = Some Connecting \<and>
       errorEvents E errs p0 = Inr pn \<and>
       socketEventError E err pn =
         Inr (fst (connect E None (pn\<lparr>connectionAttempts := length errs + 1, socket := None\<rparr>))) \<and>
       state pn = Some Connecting \<and> connectionAttempts pn = length errs \<and> events pn = [])"
proof -
  define p0 where "p0 = fst (connect E None ((Peer_new h hdr bsize mx)\<lparr>keypair := kp, listeners := ls\<rparr>))"
  define pn where "pn = after (errorEvents E errs p0)"
  have a: "state p0 = Some Connecting" "maxConnectionAttemps p0 = None"
    "connectionAttempts p0 = 0" "events p0 = []"
    by (simp_all add: p0_def connect_dial Peer_new_def)
  from errors_while_connecting [OF a(1,2), where E = E and errs = errs] a(3,4)
  have b: "errorEvents E errs p0 = Inr pn" "state pn = Some Connecting" "maxConnectionAttemps pn = None"
    "connectionAttempts pn = length errs" "events pn = []"
    by (auto simp: pn_def)
  have c: "socketEventError E err pn =
      Inr (fst (connect E None (pn\<lparr>connectionAttempts := length errs + 1, socket := None\<rparr>)))"
    using socketEventError_connecting(1) [OF b(2,3), where E = E and err = err] b(4) by simp
  show ?thesis
    using a(1) b c by (simp add: Let_def p0_def [symmetric] pn_def [symmetric])
qed

theorem reconnection_never_stops_witness:
  "(let p0 = fst (connect demo None ((Peer_new demo_host 0xA27CC1A2 10485760 10)\<lparr>keypair := None, listeners := [''error'']\<rparr>));
        pn = after (errorEvents demo (replicate 10 ''ECONNREFUSED'') p0)
    in state p0 = Some Connecting \<and>
       errorEvents demo (replicate 10 ''ECONNREFUSED'') p0 = Inr pn \<and>
       socketEventError demo ''ECONNREFUSED'' pn =
         Inr (fst (connect demo None (pn\<lparr>connectionAttempts := length (replicate 10 ''ECONNREFUSED'') + 1, socket := None\<rparr>))) \<and>
       state pn = Some Connecting \<and> connectionAttempts pn = length (replicate 10 ''ECONNREFUSED'') \<and> events pn = [])"
  by (rule reconnection_never_stops [where E = demo and h = demo_host and hdr = "0xA27CC1A2"
            and bsize = 10485760 and mx = 10 and kp = None and ls = "[''error'']"
            and err = "''ECONNREFUSED''" and errs = "replicate 10 ''ECONNREFUSED''"])

text \<open>
  Claim C4, amended. The loop of the data handler is at a cursor \<open>c\<close> where the
  accumulation buffer holds a complete frame, wherever that is and whatever surrounds it:
  the magic number at \<open>c\<close>, a declared payload length \<open>L\<close> of at least 1, and all
  \<open>L + 24\<close> bytes below the write cursor. When the tag field, read as a big-endian 32-bit
  integer, differs from the first 4 bytes of the hexadecimal text of the recomputed HMAC,
  processing the frame leaves the Peer as it is, so that no notification is raised, and
  the loop goes on behind the frame with \<open>messageEnd\<close> at its end: when the loop ends, the
  offset from which the buffer is compacted is at or behind the end of the frame.
\<close>

theorem integrity_mismatch_discarded:
  fixes E :: platform and p :: peer and c L messageEnd :: nat
  assumes "c + L + 24 \<le> inCursor p" "inCursor p \<le> length (inBuffer p)"
    "readUInt32LE (inBuffer p) c = Some (header p)" "readUInt32LE (inBuffer p) (c + 16) = Some L"
    "0 < L"
  defines "m \<equiv> Buffer_slice (inBuffer p) c (c + L + 24)"
  assumes "readUInt32BE m 20 \<noteq> readUInt32BE (Buffer_from (calculateChecksum E (message_command m) (drop 24 m))) 0"
  shows "processMessage E m p = Inr p \<and>
         scan E c messageEnd p = scan E (c + L + 24) (c + L + 24) p \<and>
         (case scan E c messageEnd p of
            Inl thrown \<Rightarrow> True
          | Inr (q, k) \<Rightarrow> c + L + 24 \<le> k \<and> k \<le> inCursor p \<and> inBuffer q = inBuffer p \<and> inCursor q = inCursor p)"
proof -
  have fit: "c + L + 24 \<le> length (inBuffer p)" using assms(1,2) by simp
  note fs = frame_slice [OF fit assms(4)]
  have pm: "processMessage E m p = Inr p"
    unfolding m_def using assms(5,7) processMessage_frame [OF fs(1,2), of E p] by (simp add: m_def)
  have sc: "scan E c messageEnd p = scan E (c + L + 24) (c + L + 24) p"
    using scan_frame [OF assms(1,3,4), of E messageEnd] pm by (simp add: m_def)
  have "case scan E (c + L + 24) (c + L + 24) p of
            Inl thrown \<Rightarrow> True
          | Inr (q, k) \<Rightarrow> c + L + 24 \<le> k \<and> k \<le> inCursor p \<and> inBuffer q = inBuffer p \<and> inCursor q = inCursor p"
  proof (cases "scan E (c + L + 24) (c + L + 24) p")
    case (Inl t)
    then show ?thesis by simp
  next
    case (Inr t)
    obtain q k where t: "t = (q, k)" by (cases t)
    from scan_result [OF Inr [unfolded t]] assms(1) show ?thesis
      using Inr t by auto
  qed
  then show ?thesis using pm sc by simp
qed

theorem integrity_mismatch_discarded_witness:
  "24 + 3 + 24 \<le> inCursor (holding (empty_frame @ bad_tag_frame)) \<and>
   inCursor (holding (empty_frame @ bad_tag_frame)) \<le> length (inBuffer (holding (empty_frame @ bad_tag_frame))) \<and>
   readUInt32LE (inBuffer (holding (empty_frame @ bad_tag_frame))) 24 = Some (header (holding (empty_frame @ bad_tag_frame))) \<and>
   readUInt32LE (inBuffer (holding (empty_frame @ bad_tag_frame))) (24 + 16) = Some 3 \<and>
   Buffer_slice (inBuffer (holding (empty_frame @ bad_tag_frame))) 24 (24 + 3 + 24) = bad_tag_frame \<and>
   readUInt32BE bad_tag_frame 20 = Some 1647718708 \<and>
   readUInt32BE (Buffer_from (calculateChecksum demo (message_command bad_tag_frame) (drop 24 bad_tag_frame))) 0
     = Some 1684158513 \<and>
   processMessage demo bad_tag_frame (holding (empty_frame @ bad_tag_frame)) = Inr (holding (empty_frame @ bad_tag_frame)) \<and>
   scan demo 24 24 (holding (empty_frame @ bad_tag_frame)) = Inr (holding (empty_frame @ bad_tag_frame), 51) \<and>
   map_sum fst (\<lambda>q. (events q, remotePublicKey q, inCursor q))
     (socketEventData demo (empty_frame @ bad_tag_frame) demo_peer) = Inr ([MessageEv (js ''HI'') []], None, 0)"
proof -
  let ?p = "holding (empty_frame @ bad_tag_frame)"
  note sf = held_frame [of bad_tag_frame empty_frame]
  have l: "length empty_frame = 24" "length bad_tag_frame = 27"
    by (simp_all add: empty_frame_def bad_tag_frame_def)
  have h: "24 + 3 + 24 \<le> inCursor ?p" "inCursor ?p \<le> length (inBuffer ?p)"
    "readUInt32LE (inBuffer ?p) 24 = Some (header ?p)" "readUInt32LE (inBuffer ?p) (24 + 16) = Some 3"
    "0 < (3::nat)"
    using sf(1,2) l bad_tag_frame_facts(2,3) by (simp_all add: holding_simps demo_peer_simps)
  have s: "Buffer_slice (inBuffer ?p) 24 (24 + 3 + 24) = bad_tag_frame"
    using sf(3) l by simp
  have e: "scan demo (24 + 3 + 24) (24 + 3 + 24) ?p = Inr (?p, 51)"
    using scan_holding_end [of demo "empty_frame @ bad_tag_frame" 51] l by simp
  have x: "readUInt32BE (Buffer_from (calculateChecksum demo (message_command bad_tag_frame) (drop 24 bad_tag_frame))) 0
     = Some 1684158513"
    by (simp add: bad_tag_frame_facts demo_expected)
  from integrity_mismatch_discarded [OF h, of demo 24, unfolded s, OF bad_tag_mismatch]
  show ?thesis
    using h s e x bad_tag_frame_facts(6) two_frame_runs(1) by simp
qed

theorem integrity_mismatch_empty_counterexample:
  "length empty_frame = 24 \<and> readUInt32LE empty_frame 0 = Some (header demo_peer) \<and>
   readUInt32LE empty_frame 16 = Some 0 \<and>
   readUInt32BE empty_frame 20 = Some 16909060 \<and>
   readUInt32BE (Buffer_from (calculateChecksum demo (message_command empty_frame) (drop 24 empty_frame))) 0
     = Some 1664627249 \<and>
   socketEventData demo empty_frame demo_peer =
     Inr (demo_peer\<lparr>inBuffer := empty_frame @ replicate 40 0, inCursor := 0,
            events := [MessageEv (js ''HI'') []]\<rparr>)"
proof -
  have "socketEventData demo empty_frame demo_peer =
      ingested empty_frame demo_peer (deliver demo (message_command empty_frame) (drop 24 empty_frame) demo_peer)"
    using receive_frame [OF _ empty_frame_facts(1) _ empty_frame_facts(2,3), of demo]
    by (simp add: demo_peer_simps empty_frame_def)
  then have "socketEventData demo empty_frame demo_peer =
     Inr (demo_peer\<lparr>inBuffer := empty_frame @ replicate 40 0, inCursor := 0,
            events := [MessageEv (js ''HI'') []]\<rparr>)"
    using empty_frame_facts(1)
    by (simp add: empty_frame_facts(4,5) deliver_def ingested_def demo_peer_simps js_def)
  moreover have "readUInt32BE (Buffer_from (calculateChecksum demo (message_command empty_frame) (drop 24 empty_frame))) 0
     = Some 1664627249"
    unfolding integrityTag_read [symmetric]
    by (simp add: empty_frame_facts(4,5) demo_tag readUInt32BE_def)
  ultimately show ?thesis using empty_frame_facts by simp
qed

text \<open>
  Claim C5, amended. For a complete frame with the declared payload length 0, anywhere in
  the accumulation buffer, the outcome of processing it is given without a look at the
  bytes 20 to 23, and it is the same for every other 4 bytes in their place. For the
  command SECURE the empty string becomes the remote public key. For any other command, a
  Peer without a remote public key raises a message with an empty payload; a Peer with
  one passes the empty payload to \<open>publicDecrypt\<close> first and raises a message with the
  result, or throws what \<open>publicDecrypt\<close> throws. The loop goes on behind the frame unless
  processing has thrown.
\<close>

theorem empty_payload_not_verified:
  fixes E :: platform and p :: peer and c messageEnd :: nat and t :: buffer
  assumes "c + 24 \<le> inCursor p" "inCursor p \<le> length (inBuffer p)"
    "readUInt32LE (inBuffer p) c = Some (header p)" "readUInt32LE (inBuffer p) (c + 16) = Some 0"
  defines "m \<equiv> Buffer_slice (inBuffer p) c (c + 24)"
  shows "processMessage E m p =
     (if message_command m = js ''SECURE''
      then Inr (p\<lparr>remotePublicKey := Some []\<rparr>)
      else (case remotePublicKey p of
              None \<Rightarrow> Inr (p\<lparr>events := events p @ [MessageEv (message_command m) []]\<rparr>)
            | Some key \<Rightarrow>
                (case publicDecrypt E key [] of
                   None \<Rightarrow> Inl CryptoError
                 | Some decrypted \<Rightarrow>
                     Inr (p\<lparr>events := events p @ [MessageEv (message_command m) decrypted]\<rparr>)))) \<and>
     (length t = 4 \<longrightarrow> processMessage E (take 20 m @ t) p = processMessage E m p) \<and>
     scan E c messageEnd p =
       (case processMessage E m p of
          Inl e \<Rightarrow> Inl (e, p)
        | Inr p' \<Rightarrow> scan E (c + 24) (c + 24) p')"
proof -
  have fit: "c + 0 + 24 \<le> length (inBuffer p)" using assms(1,2) by simp
  note fs = frame_slice [OF fit assms(4), simplified, folded m_def]
  have any: "processMessage E x p =
     (if message_command x = js ''SECURE''
      then Inr (p\<lparr>remotePublicKey := Some []\<rparr>)
      else (case remotePublicKey p of
              None \<Rightarrow> Inr (p\<lparr>events := events p @ [MessageEv (message_command x) []]\<rparr>)
            | Some key \<Rightarrow>
                (case publicDecrypt E key [] of
                   None \<Rightarrow> Inl CryptoError
                 | Some decrypted \<Rightarrow>
                     Inr (p\<lparr>events := events p @ [MessageEv (message_command x) decrypted]\<rparr>))))"
    if "length x = 24" "readUInt32LE x 16 = Some 0" for x
    using processMessage_frame [of x 0 E p] that
    by (simp add: deliver_def split: option.splits)
  have 1: "processMessage E m p =
     (if message_command m = js ''SECURE''
      then Inr (p\<lparr>remotePublicKey := Some []\<rparr>)
      else (case remotePublicKey p of
              None \<Rightarrow> Inr (p\<lparr>events := events p @ [MessageEv (message_command m) []]\<rparr>)
            | Some key \<Rightarrow>
                (case publicDecrypt E key [] of
                   None \<Rightarrow> Inl CryptoError
                 | Some decrypted \<Rightarrow>
                     Inr (p\<lparr>events := events p @ [MessageEv (message_command m) decrypted]\<rparr>))))"
    using fs(1,2) by (rule any)
  have 2: "processMessage E (take 20 m @ t) p = processMessage E m p" if t: "length t = 4"
  proof -
    have l: "length (take 20 m @ t) = 24" using fs(1) t by simp
    have r: "readUInt32LE (take 20 m @ t) 16 = Some 0"
      using fs(1,2) readUInt32LE_append [of 16 "take 20 m" t]
      by (simp add: readUInt32LE_def)
    have c: "message_command (take 20 m @ t) = message_command m"
      using fs(1) by (simp add: message_command_def Buffer_slice_def)
    show ?thesis unfolding any [OF l r] 1 c ..
  qed
  have 3: "scan E c messageEnd p =
       (case processMessage E m p of
          Inl e \<Rightarrow> Inl (e, p)
        | Inr p' \<Rightarrow> scan E (c + 24) (c + 24) p')"
    using scan_frame [of c 0 p E messageEnd] assms(1,3,4) by (simp add: m_def cong: sum.case_cong)
  show ?thesis using 1 2 3 by blast
qed

theorem empty_payload_not_verified_witness:
  "3 + 24 \<le> inCursor (holding ([9, 9, 9] @ empty_frame)) \<and>
   inCursor (holding ([9, 9, 9] @ empty_frame)) \<le> length (inBuffer (holding ([9, 9, 9] @ empty_frame))) \<and>
   readUInt32LE (inBuffer (holding ([9, 9, 9] @ empty_frame))) 3 = Some (header (holding ([9, 9, 9] @ empty_frame))) \<and>
   readUInt32LE (inBuffer (holding ([9, 9, 9] @ empty_frame))) (3 + 16) = Some 0 \<and>
   Buffer_slice (inBuffer (holding ([9, 9, 9] @ empty_frame))) 3 (3 + 24) = empty_frame \<and>
   processMessage demo empty_frame (holding ([9, 9, 9] @ empty_frame)) =
     Inr ((holding ([9, 9, 9] @ empty_frame))\<lparr>events := [MessageEv (js ''HI'') []]\<rparr>) \<and>
   processMessage demo (take 20 empty_frame @ [0, 0, 0, 0]) (holding ([9, 9, 9] @ empty_frame)) =
     Inr ((holding ([9, 9, 9] @ empty_frame))\<lparr>events := [MessageEv (js ''HI'') []]\<rparr>) \<and>
   scan demo 3 0 (holding ([9, 9, 9] @ empty_frame)) =
     Inr ((holding ([9, 9, 9] @ empty_frame))\<lparr>events := [MessageEv (js ''HI'') []]\<rparr>, 27) \<and>
   map_sum fst (\<lambda>q. (events q, remotePublicKey q, inCursor q))
     (socketEventData demo ([9, 9, 9] @ empty_frame) demo_peer) = Inr ([MessageEv (js ''HI'') []], None, 0)"
proof -
  let ?p = "holding ([9, 9, 9] @ empty_frame)"
  have l3: "length [9, 9, 9 :: byte] = 3" by simp
  note hf = held_frame [of empty_frame "[9, 9, 9]", unfolded l3]
  have l: "length empty_frame = 24" by (simp add: empty_frame_def)
  have h: "3 + 24 \<le> inCursor ?p" "inCursor ?p \<le> length (inBuffer ?p)"
    "readUInt32LE (inBuffer ?p) 3 = Some (header ?p)" "readUInt32LE (inBuffer ?p) (3 + 16) = Some 0"
    using hf(1,2) l empty_frame_facts(2,3) by (simp_all add: holding_simps demo_peer_simps)
  have s: "Buffer_slice (inBuffer ?p) 3 (3 + 24) = empty_frame"
    using hf(3) l by simp
  have e: "scan demo (3 + 24) (3 + 24) (?p\<lparr>events := [MessageEv (js ''HI'') []]\<rparr>) =
      Inr (?p\<lparr>events := [MessageEv (js ''HI'') []]\<rparr>, 27)"
    using l by (simp add: scan_done holding_simps)
  from empty_payload_not_verified [OF h, where t = "[0, 0, 0, 0]" and E = demo and messageEnd = 0,
      unfolded s]
  show ?thesis
    using h s e two_frame_runs(2) by (simp add: empty_frame_facts(4) holding_simps js_def)
qed

theorem empty_payload_decrypted_counterexample:
  "length empty_frame = 24 \<and> readUInt32LE empty_frame 0 = Some (header demo_peer) \<and>
   readUInt32LE empty_frame 16 = Some 0 \<and> message_command empty_frame = js ''HI'' \<and>
   publicDecrypt demo (js ''KEY'') [] = None \<and>
   socketEventData demo empty_frame (demo_peer\<lparr>remotePublicKey := Some (js ''KEY'')\<rparr>) =
     Inl (CryptoError,
          demo_peer\<lparr>remotePublicKey := Some (js ''KEY''), inBuffer := empty_frame @ replicate 40 0,
                      inCursor := 24\<rparr>)"
proof -
  let ?p = "demo_peer\<lparr>remotePublicKey := Some (js ''KEY'')\<rparr>"
  have "socketEventData demo empty_frame ?p =
      ingested empty_frame ?p (deliver demo (message_command empty_frame) (drop 24 empty_frame) ?p)"
    using receive_frame [OF _ empty_frame_facts(1), of ?p demo] empty_frame_facts(2,3)
    by (simp add: demo_peer_simps empty_frame_def)
  moreover have "deliver demo (message_command empty_frame) (drop 24 empty_frame) ?p = Inl CryptoError"
    by (simp add: empty_frame_facts(4,5) deliver_def js_def demo_def)
  ultimately show ?thesis
    using empty_frame_facts by (simp add: ingested_def demo_peer_simps demo_def)
qed

text \<open>
  Claim C6, amended. In every frame that \<open>send\<close> builds, the bytes 20 to 23 are the first
  4 bytes of the hexadecimal text of the HMAC keyed by the command as it was given to
  \<open>send\<close>, over the data framed: the character codes of its first 4 hexadecimal digits.
  The receiver keys its HMAC with the command it reads from the frame, the first 12
  characters of the sender's command without the NUL characters, and it verifies only a
  frame with a payload: it compares the first 4 bytes of the hexadecimal text of that HMAC,
  as a big-endian 32-bit integer, with the tag field read the same way. For a command of at
  most 12 characters, none of them NUL, that is the sender's HMAC, and the frame is
  accepted. The last part is the same comparison for every complete frame with a payload,
  whoever built it.
\<close>

theorem integrity_tag_wire_format:
  "(send_outgoingBuffer E command data p = Inr f \<longrightarrow>
      Buffer_slice f 20 24 = take 4 (Buffer_from (digest_hex (hmac E command data))) \<and>
      Buffer_slice f 20 24 =
        map (\<lambda>i. of_nat (of_char (digit (unat (hmac E command data) div 16 ^ (63 - i) mod 16)))) [0..<4] \<and>
      message_command f = filter (\<lambda>x. x \<noteq> 0) (take 12 command) \<and>
      (0 < length data \<longrightarrow>
         processMessage E f q =
           (if readUInt32BE (Buffer_from (digest_hex (hmac E command data))) 0 =
                 readUInt32BE (Buffer_from (digest_hex (hmac E (filter (\<lambda>x. x \<noteq> 0) (take 12 command)) data))) 0
            then deliver E (filter (\<lambda>x. x \<noteq> 0) (take 12 command)) data q
            else Inr q)) \<and>
      (0 < length data \<and> length command \<le> 12 \<and> 0 \<notin> set command \<longrightarrow>
         processMessage E f q = deliver E command data q)) \<and>
   (length m = L + 24 \<and> readUInt32LE m 16 = Some L \<and> 0 < L \<longrightarrow>
      processMessage E m q =
        (if readUInt32BE m 20 =
              readUInt32BE (Buffer_from (digest_hex (hmac E (message_command m) (drop 24 m)))) 0
         then deliver E (message_command m) (drop 24 m) q
         else Inr q))"
proof (intro conjI impI)
  assume s: "send_outgoingBuffer E command data p = Inr f"
  from send_tag [OF s]
  show "Buffer_slice f 20 24 = take 4 (Buffer_from (digest_hex (hmac E command data)))"
    by (simp add: integrityTag_def calculateChecksum_def)
  from send_tag [OF s]
  show "Buffer_slice f 20 24 =
        map (\<lambda>i. of_nat (of_char (digit (unat (hmac E command data) div 16 ^ (63 - i) mod 16)))) [0..<4]"
    by (simp only: integrityTag_digits)
  from send_built [OF s]
  have ch: "\<forall>c\<in>set (take 12 command). unat c < 256" and ld: "length data < 4294967296"
    and f: "f = wire_frame (header p) command (integrityTag E command data) data"
    by simp_all
  show mc: "message_command f = filter (\<lambda>x. x \<noteq> 0) (take 12 command)"
    unfolding f using ch by (rule message_command_wire_any)
  have lf: "length f = length data + 24" by (simp add: f)
  have rl: "readUInt32LE f 16 = Some (length data)"
    unfolding f using ld by (rule wire_frame_length)
  have pl: "drop 24 f = data" by (simp add: f wire_frame_payload)
  have tg: "readUInt32BE f 20 = readUInt32BE (Buffer_from (digest_hex (hmac E command data))) 0"
    by (simp add: f wire_frame_tag integrityTag_read calculateChecksum_def)
  show v: "processMessage E f q =
           (if readUInt32BE (Buffer_from (digest_hex (hmac E command data))) 0 =
                 readUInt32BE (Buffer_from (digest_hex (hmac E (filter (\<lambda>x. x \<noteq> 0) (take 12 command)) data))) 0
            then deliver E (filter (\<lambda>x. x \<noteq> 0) (take 12 command)) data q
            else Inr q)"
    if "0 < length data"
    using processMessage_frame [OF lf rl, of E q] that
    by (simp add: mc pl tg calculateChecksum_def)
  show "processMessage E f q = deliver E command data q"
    if h: "0 < length data \<and> length command \<le> 12 \<and> 0 \<notin> set command"
  proof -
    from h have fc: "filter (\<lambda>x. x \<noteq> 0) (take 12 command) = command"
      by (intro short_command) simp_all
    from h have "0 < length data" by simp
    from v [OF this] show ?thesis unfolding fc by simp
  qed
next
  assume "length m = L + 24 \<and> readUInt32LE m 16 = Some L \<and> 0 < L"
  then show "processMessage E m q =
        (if readUInt32BE m 20 =
              readUInt32BE (Buffer_from (digest_hex (hmac E (message_command m) (drop 24 m)))) 0
         then deliver E (message_command m) (drop 24 m) q
         else Inr q)"
    using processMessage_frame [of m L E q] by (simp add: calculateChecksum_def)
qed

theorem integrity_tag_wire_format_witness:
  "send_outgoingBuffer demo (js ''HI'') [1, 2, 3] demo_peer = Inr hi_frame \<and>
   Buffer_slice hi_frame 20 24 = [100, 98, 56, 49] \<and>
   take 4 (digest_hex (hmac demo (js ''HI'') [1, 2, 3])) = ''db81'' \<and>
   message_command hi_frame = js ''HI'' \<and>
   processMessage demo hi_frame demo_peer = Inr (demo_peer\<lparr>events := [MessageEv (js ''HI'') [1, 2, 3]]\<rparr>) \<and>
   length bad_tag_frame = 3 + 24 \<and> readUInt32LE bad_tag_frame 16 = Some 3 \<and>
   processMessage demo bad_tag_frame demo_peer = Inr demo_peer"
proof -
  have d: "take 4 (digest_hex (hmac demo (js ''HI'') [1, 2, 3])) = ''db81''"
  proof -
    have "take 4 [0..<64] = [0..<4]" by (simp add: take_upt)
    then show ?thesis
      by (simp add: digest_hex_def take_map demo_def sha256_hmac_def js_def digit_def upt_rec)
  qed
  have c: "0 < length [1, 2, 3 :: byte] \<and> length (js ''HI'') \<le> 12 \<and> 0 \<notin> set (js ''HI'')"
    by (simp add: js_def)
  have b: "length bad_tag_frame = 3 + 24 \<and> readUInt32LE bad_tag_frame 16 = Some 3 \<and> 0 < (3::nat)"
    by (simp add: bad_tag_frame_facts)
  have x: "readUInt32BE (Buffer_from (digest_hex (hmac demo (message_command bad_tag_frame) (drop 24 bad_tag_frame)))) 0
     = Some 1684158513"
    using demo_expected(1) by (simp add: bad_tag_frame_facts calculateChecksum_def)
  from integrity_tag_wire_format [of demo "js ''HI''" "[1, 2, 3]" demo_peer hi_frame demo_peer
      bad_tag_frame 3] send_hi_frame c b
  show ?thesis
    using d demo_tag(1)
    by (simp add: x bad_tag_frame_facts(6) hi_frame_facts deliver_def demo_peer_simps js_def
          integrityTag_def calculateChecksum_def)
qed

theorem receiver_key_counterexample:
  "send_outgoingBuffer demo (js ''ABCDEFGHIJKLMNOP'') [1, 2, 3] demo_peer = Inr long_frame \<and>
   take 4 (digest_hex (hmac demo (js ''ABCDEFGHIJKLMNOP'') [1, 2, 3])) = ''cb76'' \<and>
   Buffer_slice long_frame 20 24 = Buffer_from ''cb76'' \<and>
   message_command long_frame = js ''ABCDEFGHIJKL'' \<and>
   take 4 (digest_hex (hmac demo (js ''ABCDEFGHIJKL'') [1, 2, 3])) = ''688d'' \<and>
   socketEventData demo long_frame demo_peer =
     Inr (demo_peer\<lparr>inBuffer := long_frame @ replicate 37 0, inCursor := 0\<rparr>) \<and>
   events demo_peer = [] \<and>
   send_outgoingBuffer demo (js ''HI'') [] demo_peer =
     Inr [162, 193, 124, 162, 72, 73, 0, 0, 0, 0, 0, 0, 0, 0, 0, 0, 0, 0, 0, 0, 99, 56, 50, 49] \<and>
   processMessage demo
     [162, 193, 124, 162, 72, 73, 0, 0, 0, 0, 0, 0, 0, 0, 0, 0, 0, 0, 0, 0, 0, 0, 0, 0] demo_peer =
     Inr (demo_peer\<lparr>events := [MessageEv (js ''HI'') []]\<rparr>)"
proof -
  have t: "take 4 [0..<64] = [0..<4]" by (simp add: take_upt)
  have d1: "take 4 (digest_hex (hmac demo (js ''ABCDEFGHIJKLMNOP'') [1, 2, 3])) = ''cb76''"
    using t by (simp add: digest_hex_def take_map demo_def sha256_hmac_def js_def digit_def upt_rec)
  have d2: "take 4 (digest_hex (hmac demo (js ''ABCDEFGHIJKL'') [1, 2, 3])) = ''688d''"
    using t by (simp add: digest_hex_def take_map demo_def sha256_hmac_def js_def digit_def upt_rec)
  have sl: "Buffer_slice long_frame 20 24 = Buffer_from ''cb76''"
    by (simp add: long_frame_def Buffer_slice_def Buffer_from_def)
  have rc: "socketEventData demo long_frame demo_peer =
     Inr (demo_peer\<lparr>inBuffer := long_frame @ replicate 37 0, inCursor := 0\<rparr>)"
    using receive_frame [OF _ long_frame_facts(1) _ long_frame_facts(2,3), of demo] long_frame_facts(1)
    by (simp add: demo_peer_simps long_frame_facts(4,5,6) demo_expected)
  have "send_outgoingBuffer demo (js ''HI'') [] demo_peer =
      Inr (wire_frame (header demo_peer) (js ''HI'') (integrityTag demo (js ''HI'') []) [])"
    by (intro send_outgoingBuffer_wire) (simp_all add: demo_peer_simps js_def)
  then have se: "send_outgoingBuffer demo (js ''HI'') [] demo_peer =
     Inr [162, 193, 124, 162, 72, 73, 0, 0, 0, 0, 0, 0, 0, 0, 0, 0, 0, 0, 0, 0, 99, 56, 50, 49]"
    by (simp add: wire demo_peer_simps)
  have pe: "processMessage demo
     [162, 193, 124, 162, 72, 73, 0, 0, 0, 0, 0, 0, 0, 0, 0, 0, 0, 0, 0, 0, 0, 0, 0, 0] demo_peer =
     Inr (demo_peer\<lparr>events := [MessageEv (js ''HI'') []]\<rparr>)"
    using processMessage_frame [of "[162, 193, 124, 162, 72, 73, 0, 0, 0, 0, 0, 0, 0, 0, 0, 0, 0, 0, 0, 0, 0, 0, 0, 0]" 0 demo demo_peer]
    by (simp add: readUInt32LE_def deliver_def message_command_def Buffer_slice_def js_def demo_peer_simps)
  show ?thesis
    using send_long_frame d1 d2 sl rc se pe long_frame_facts(4) by (simp add: demo_peer_simps)
qed

text \<open>
  Claim C7, amended. For a Peer with a listener attached for \<open>error\<close>: when a chunk would
  take the cursor beyond the capacity of the accumulation buffer, the Peer raises the error
  notification and sets the cursor to the capacity plus one; whatever data events follow,
  each raises that error notification again and nothing else, and the buffer and the
  cursor stay as they are. Without such a listener \<open>emit\<close> throws before the cursor is
  set, and the Peer goes on taking data.
\<close>

theorem poisoned_buffer:
  assumes "length data + inCursor p > length (inBuffer p)" "''error'' \<in> set (listeners p)"
  shows "dataEvents E (data # ds) p =
           Inr (p\<lparr>inCursor := length (inBuffer p) + 1,
                  events := events p @ replicate (Suc (length ds)) (ErrorEv ''Peer exceeded max receiving buffer'')\<rparr>)"
proof -
  let ?q = "p\<lparr>inCursor := length (inBuffer p) + 1,
              events := events p @ [ErrorEv ''Peer exceeded max receiving buffer'']\<rparr>"
  have step: "socketEventData E data p = Inr ?q"
    using assms by (rule overflow_step)
  have q: "inCursor ?q = length (inBuffer ?q) + 1" "''error'' \<in> set (listeners ?q)"
    using assms(2) by simp_all
  show ?thesis
    using poisoned_stays [OF q, of E ds]
    by (simp add: step replicate_append_same)
qed

theorem poisoned_buffer_witness:
  "length (replicate 65 (7 :: byte)) + inCursor (on ''error'' demo_peer) > length (inBuffer (on ''error'' demo_peer)) \<and>
   listeners (on ''error'' demo_peer) = [''error''] \<and>
   dataEvents demo [replicate 65 7, hi_frame, []] (on ''error'' demo_peer) =
     Inr ((on ''error'' demo_peer)\<lparr>inCursor := 65,
            events := [ErrorEv ''Peer exceeded max receiving buffer'', ErrorEv ''Peer exceeded max receiving buffer'',
                       ErrorEv ''Peer exceeded max receiving buffer'']\<rparr>)"
proof -
  have h: "length (replicate 65 (7 :: byte)) + inCursor (on ''error'' demo_peer) > length (inBuffer (on ''error'' demo_peer))"
    "''error'' \<in> set (listeners (on ''error'' demo_peer))"
    by (simp_all add: on_def demo_peer_simps)
  from poisoned_buffer [OF h, of demo "[hi_frame, []]"] show ?thesis
    by (simp add: on_def demo_peer_simps)
qed

theorem unheard_overflow_counterexample:
  "listeners demo_peer = [] \<and> inCursor demo_peer = 0 \<and> length (inBuffer demo_peer) = 64 \<and>
   socketEventData demo (replicate 65 7) demo_peer = Inl (UnhandledError, demo_peer) \<and>
   socketEventData demo hi_frame (after (socketEventData demo (replicate 65 7) demo_peer)) =
     Inr (demo_peer\<lparr>inBuffer := hi_frame @ replicate 37 0, inCursor := 0,
            events := [MessageEv (js ''HI'') [1, 2, 3]]\<rparr>)"
proof -
  have 1: "socketEventData demo (replicate 65 7) demo_peer = Inl (UnhandledError, demo_peer)"
    by (simp add: socketEventData_def emit_error demo_peer_simps)
  have ne: "js ''HI'' \<noteq> js ''SECURE''" by (simp add: js_def)
  have 2: "socketEventData demo hi_frame demo_peer =
     Inr (demo_peer\<lparr>inBuffer := hi_frame @ replicate 37 0, inCursor := 0,
            events := [MessageEv (js ''HI'') [1, 2, 3]]\<rparr>)"
    using receive_frame [OF _ hi_frame_facts(1) _ hi_frame_facts(2,3), of demo] hi_frame_facts(1)
    by (simp add: demo_peer_simps hi_frame_facts(4,5,6) demo_expected deliver_def ingested_def ne)
  show ?thesis using 2 by (simp add: 1 demo_peer_simps)
qed

text \<open>
  Claim C8, what the code does. An address that contains \<open>localhost\<close> anywhere is replaced
  by \<open>127.0.0.1\<close> before it is checked, so that the construction succeeds with the family
  IPv4 although the address is neither an IP literal nor the literal \<open>localhost\<close>.
\<close>

theorem Host_new_localhost_substring:
  assumes "str_includes addr ''localhost''" "isIP E ''127.0.0.1'' = 4"
  shows "Host_new E addr prt = Inr \<lparr>family = ''IPv4'', address = ''127.0.0.1'', port = prt\<rparr>"
  using assms by (simp add: Host_new_def Let_def digit_def)

theorem Host_new_localhost_substring_witness:
  "str_includes ''notlocalhost'' ''localhost'' \<and> isIP demo ''notlocalhost'' = 0 \<and>
   Host_new demo ''notlocalhost'' 5744 = Inr \<lparr>family = ''IPv4'', address = ''127.0.0.1'', port = 5744\<rparr>"
proof -
  have 1: "str_includes ''notlocalhost'' ''localhost''" by simp
  have 2: "isIP demo ''127.0.0.1'' = 4" by (simp add: demo_def)
  have 3: "isIP demo ''notlocalhost'' = 0" by (simp add: demo_def)
  show ?thesis using Host_new_localhost_substring [OF 1 2, of 5744] 1 3 by simp
qed

text \<open>
  Claim C9, amended. \<open>send\<close> returns a boolean when the frame can be built: the data
  transformation succeeds, the magic number and the length of the data are below \<open>2^32\<close>
  and the first 12 characters of the command are single bytes. The result is then true
  exactly when the Peer has a socket and the write succeeds. In every other case \<open>send\<close>
  throws.
\<close>

theorem send_returns_or_throws:
  "send E command data p =
     (case send_data E command data p of
        Inl e \<Rightarrow> Inl e
      | Inr d \<Rightarrow>
          if header p < 4294967296 \<and> length d < 4294967296 \<and> (\<forall>c\<in>set (take 12 command). unat c < 256)
          then Inr (case socket p of
                      None \<Rightarrow> False
                    | Some s \<Rightarrow> socketWrite E s (wire_frame (header p) command (integrityTag E command d) d))
          else Inl RangeError)"
proof (cases "send_data E command data p")
  case (Inl e)
  then show ?thesis by (simp add: send_def)
next
  case (Inr d)
  show ?thesis
  proof (cases "header p < 4294967296 \<and> length d < 4294967296 \<and> (\<forall>c\<in>set (take 12 command). unat c < 256)")
    case True
    then have "send_outgoingBuffer E command d p = Inr (wire_frame (header p) command (integrityTag E command d) d)"
      by (intro send_outgoingBuffer_wire) simp_all
    then show ?thesis using Inr True by (simp add: send_def split: option.splits)
  next
    case False
    then have "send_outgoingBuffer E command d p = Inl RangeError"
      by (rule send_outgoingBuffer_throws)
    then show ?thesis using Inr False by (simp add: send_def)
  qed
qed

theorem send_returns_or_throws_witness:
  "send demo (js ''HI'') (Some [1, 2, 3]) demo_peer = Inr True \<and>
   send demo (js ''HI'') (Some [1, 2, 3]) (demo_peer\<lparr>socket := Some (Given 0)\<rparr>) = Inr False \<and>
   send demo (js ''HI'') (Some [1, 2, 3]) (demo_peer\<lparr>socket := None\<rparr>) = Inr False"
  using send_returns_or_throws [of demo "js ''HI''" "Some [1, 2, 3]" demo_peer]
    send_returns_or_throws [of demo "js ''HI''" "Some [1, 2, 3]" "demo_peer\<lparr>socket := Some (Given 0)\<rparr>"]
    send_returns_or_throws [of demo "js ''HI''" "Some [1, 2, 3]" "demo_peer\<lparr>socket := None\<rparr>"]
  by (simp add: send_data_def demo_peer_simps js_def demo_def)

theorem send_throws_counterexample:
  "send demo [0x20AC] None demo_peer = Inl RangeError \<and>
   send demo (js ''HI'') (Some [1, 2, 3, 4, 5])
     (demo_peer\<lparr>keypair := Some \<lparr>public = [1], private = [2]\<rparr>, remotePublicKey := Some (js ''KEY'')\<rparr>)
     = Inl CryptoError"
proof -
  have "send_outgoingBuffer demo [0x20AC] [] demo_peer = Inl RangeError"
    by (rule send_outgoingBuffer_throws) simp
  then have 1: "send demo [0x20AC] None demo_peer = Inl RangeError"
    by (simp add: send_def send_data_def demo_peer_simps Buffer_alloc_def)
  have 2: "send demo (js ''HI'') (Some [1, 2, 3, 4, 5])
     (demo_peer\<lparr>keypair := Some \<lparr>public = [1], private = [2]\<rparr>, remotePublicKey := Some (js ''KEY'')\<rparr>)
     = Inl CryptoError"
    by (simp add: send_def send_data_def js_def demo_def)
  show ?thesis using 1 2 by simp
qed

text \<open>
  Claim C10, amended. For a complete frame anywhere in the accumulation buffer whose command
  is SECURE and whose tag verifies (or whose payload is empty, when the tag is not looked
  at), processing the frame changes nothing but the remote public key, so that no
  notification is raised, and the loop goes on behind the frame. The key stored is
  \<open>payload.toString()\<close>, the UTF-8 decoding of the payload: for a payload of ASCII bytes,
  as a PEM key is, its characters one for one; in general not the payload, since the
  payloads 255 and 254 both leave the one character \<open>U+FFFD\<close>.
\<close>

theorem secure_frame_stores_key:
  fixes E :: platform and p :: peer and c L messageEnd :: nat
  assumes "c + L + 24 \<le> inCursor p" "inCursor p \<le> length (inBuffer p)"
    "readUInt32LE (inBuffer p) c = Some (header p)" "readUInt32LE (inBuffer p) (c + 16) = Some L"
  defines "m \<equiv> Buffer_slice (inBuffer p) c (c + L + 24)"
  assumes "message_command m = js ''SECURE''"
    "L = 0 \<or> readUInt32BE m 20 =
        readUInt32BE (Buffer_from (calculateChecksum E (js ''SECURE'') (drop 24 m))) 0"
  shows "processMessage E m p = Inr (p\<lparr>remotePublicKey := Some (Buffer_toString (drop 24 m))\<rparr>) \<and>
         scan E c messageEnd p =
           scan E (c + L + 24) (c + L + 24) (p\<lparr>remotePublicKey := Some (Buffer_toString (drop 24 m))\<rparr>) \<and>
         ((\<forall>b\<in>set (drop 24 m). b < 128) \<longrightarrow> Buffer_toString (drop 24 m) = map ucast (drop 24 m))"
proof -
  have fit: "c + L + 24 \<le> length (inBuffer p)" using assms(1,2) by simp
  note fs = frame_slice [OF fit assms(4), folded m_def]
  have pm: "processMessage E m p = Inr (p\<lparr>remotePublicKey := Some (Buffer_toString (drop 24 m))\<rparr>)"
    using processMessage_frame [OF fs(1,2), of E p] assms(6,7) by (auto simp: deliver_def)
  have sc: "scan E c messageEnd p =
      scan E (c + L + 24) (c + L + 24) (p\<lparr>remotePublicKey := Some (Buffer_toString (drop 24 m))\<rparr>)"
    using scan_frame [OF assms(1,3,4), of E messageEnd] pm by (simp add: m_def)
  show ?thesis using pm sc Buffer_toString_ascii by blast
qed

theorem secure_frame_stores_key_witness:
  "24 + 3 + 24 \<le> inCursor (holding (empty_frame @ secure_frame)) \<and>
   inCursor (holding (empty_frame @ secure_frame)) \<le> length (inBuffer (holding (empty_frame @ secure_frame))) \<and>
   readUInt32LE (inBuffer (holding (empty_frame @ secure_frame))) 24 = Some (header (holding (empty_frame @ secure_frame))) \<and>
   readUInt32LE (inBuffer (holding (empty_frame @ secure_frame))) (24 + 16) = Some 3 \<and>
   Buffer_slice (inBuffer (holding (empty_frame @ secure_frame))) 24 (24 + 3 + 24) = secure_frame \<and>
   message_command secure_frame = js ''SECURE'' \<and> drop 24 secure_frame = [1, 2, 3] \<and>
   readUInt32BE secure_frame 20 =
     readUInt32BE (Buffer_from (calculateChecksum demo (js ''SECURE'') (drop 24 secure_frame))) 0 \<and>
   processMessage demo secure_frame (holding (empty_frame @ secure_frame)) =
     Inr ((holding (empty_frame @ secure_frame))\<lparr>remotePublicKey := Some [1, 2, 3]\<rparr>) \<and>
   scan demo 24 24 (holding (empty_frame @ secure_frame)) =
     Inr ((holding (empty_frame @ secure_frame))\<lparr>remotePublicKey := Some [1, 2, 3]\<rparr>, 51) \<and>
   map_sum fst (\<lambda>q. (events q, remotePublicKey q, inCursor q))
     (socketEventData demo (empty_frame @ secure_frame) demo_peer) = Inr ([MessageEv (js ''HI'') []], Some [1, 2, 3], 0)"
proof -
  let ?p = "holding (empty_frame @ secure_frame)"
  note hf = held_frame [of secure_frame empty_frame]
  have l: "length empty_frame = 24" "length secure_frame = 27"
    by (simp_all add: empty_frame_def secure_frame_def)
  have h: "24 + 3 + 24 \<le> inCursor ?p" "inCursor ?p \<le> length (inBuffer ?p)"
    "readUInt32LE (inBuffer ?p) 24 = Some (header ?p)" "readUInt32LE (inBuffer ?p) (24 + 16) = Some 3"
    using hf(1,2) l secure_frame_facts(2,3) by (simp_all add: holding_simps demo_peer_simps)
  have s: "Buffer_slice (inBuffer ?p) 24 (24 + 3 + 24) = secure_frame"
    using hf(3) l by simp
  have v: "3 = (0::nat) \<or> readUInt32BE secure_frame 20 =
     readUInt32BE (Buffer_from (calculateChecksum demo (js ''SECURE'') (drop 24 secure_frame))) 0"
    by (simp add: secure_frame_facts demo_expected)
  have e: "scan demo (24 + 3 + 24) (24 + 3 + 24) (?p\<lparr>remotePublicKey := Some [1, 2, 3]\<rparr>) =
      Inr (?p\<lparr>remotePublicKey := Some [1, 2, 3]\<rparr>, 51)"
    using l by (simp add: scan_done holding_simps)
  from secure_frame_stores_key [OF h, where E = demo and messageEnd = 24, unfolded s,
      OF secure_frame_facts(4) v]
  show ?thesis
    using h s e v two_frame_runs(3) by (simp add: secure_frame_facts(4,5) toString_examples)
qed

theorem secure_key_lossy_counterexample:
  "length secure_ff_frame = 1 + 24 \<and> readUInt32LE secure_ff_frame 0 = Some (header demo_peer) \<and>
   readUInt32LE secure_ff_frame 16 = Some 1 \<and> message_command secure_ff_frame = js ''SECURE'' \<and>
   drop 24 secure_ff_frame = [255] \<and>
   readUInt32BE secure_ff_frame 20 =
     readUInt32BE (Buffer_from (calculateChecksum demo (js ''SECURE'') [255])) 0 \<and>
   socketEventData demo secure_ff_frame demo_peer =
     Inr (demo_peer\<lparr>inBuffer := secure_ff_frame @ replicate 39 0, inCursor := 0,
            remotePublicKey := Some [0xFFFD]\<rparr>) \<and>
   length secure_fe_frame = 1 + 24 \<and> readUInt32LE secure_fe_frame 0 = Some (header demo_peer) \<and>
   readUInt32LE secure_fe_frame 16 = Some 1 \<and> message_command secure_fe_frame = js ''SECURE'' \<and>
   drop 24 secure_fe_frame = [254] \<and>
   readUInt32BE secure_fe_frame 20 =
     readUInt32BE (Buffer_from (calculateChecksum demo (js ''SECURE'') [254])) 0 \<and>
   socketEventData demo secure_fe_frame demo_peer =
     Inr (demo_peer\<lparr>inBuffer := secure_fe_frame @ replicate 39 0, inCursor := 0,
            remotePublicKey := Some [0xFFFD]\<rparr>)"
proof -
  have 1: "socketEventData demo secure_ff_frame demo_peer =
     Inr (demo_peer\<lparr>inBuffer := secure_ff_frame @ replicate 39 0, inCursor := 0,
            remotePublicKey := Some [0xFFFD]\<rparr>)"
    using receive_frame [OF _ secure_ff_facts(1) _ secure_ff_facts(2,3), of demo] secure_ff_facts(1)
    by (simp add: demo_peer_simps secure_ff_facts(4,5,6) demo_expected deliver_def ingested_def
          toString_examples)
  have 2: "socketEventData demo secure_fe_frame demo_peer =
     Inr (demo_peer\<lparr>inBuffer := secure_fe_frame @ replicate 39 0, inCursor := 0,
            remotePublicKey := Some [0xFFFD]\<rparr>)"
    using receive_frame [OF _ secure_fe_facts(1) _ secure_fe_facts(2,3), of demo] secure_fe_facts(1)
    by (simp add: demo_peer_simps secure_fe_facts(4,5,6) demo_expected deliver_def ingested_def
          toString_examples)
  show ?thesis
    using 1 2 secure_ff_facts secure_fe_facts by (simp add: demo_expected)
qed

end
